theory Spec2Isabelle
  imports Complex_Main
begin

section \<open>Python strings\<close>

text \<open>
  A Python \<open>str\<close> is modelled as a \<^typ>\<open>string\<close>: a list of 8-bit characters, each read as
  the Unicode code point of the same number. The model therefore covers text in the
  Latin-1 range, which contains every character the two downloaders test for.
\<close>

definition isspace :: "char \<Rightarrow> bool" where
  \<comment> \<open>\<open>str.isspace\<close> on one code point below 256: TAB..CR, FS..US, SPACE, NEL, NBSP.\<close>
  "isspace c =
     (let n = (of_char c :: nat)
      in (9 \<le> n \<and> n \<le> 13) \<or> (28 \<le> n \<and> n \<le> 32) \<or> n = 133 \<or> n = 160)"

definition strip :: "string \<Rightarrow> string" where
  \<comment> \<open>\<open>str.strip()\<close> without argument.\<close>
  "strip s = rev (dropWhile isspace (rev (dropWhile isspace s)))"

definition lower_char :: "char \<Rightarrow> char" where
  \<comment> \<open>\<open>str.lower()\<close> on one code point below 256: A..Z and the Latin-1 capitals
      (U+00C0..U+00DE without the multiplication sign U+00D7) move up by 32.\<close>
  "lower_char c =
     (let n = (of_char c :: nat)
      in if (65 \<le> n \<and> n \<le> 90) \<or> (192 \<le> n \<and> n \<le> 222 \<and> n \<noteq> 215)
         then char_of (n + 32) else c)"

definition lower :: "string \<Rightarrow> string" where
  "lower s = map lower_char s"

definition replace :: "char \<Rightarrow> char \<Rightarrow> string \<Rightarrow> string" where
  \<comment> \<open>\<open>s.replace(old, new)\<close> for one-character \<open>old\<close> and \<open>new\<close>: every occurrence.\<close>
  "replace old new s = map (\<lambda>c. if c = old then new else c) s"

fun startswith :: "string \<Rightarrow> string \<Rightarrow> bool" where
  \<comment> \<open>\<open>s.startswith(p)\<close>\<close>
  "startswith s [] = True"
| "startswith [] (p # ps) = False"
| "startswith (c # cs) (p # ps) = (c = p \<and> startswith cs ps)"

definition endswith :: "string \<Rightarrow> string \<Rightarrow> bool" where
  "endswith s p = startswith (rev s) (rev p)"

fun contains :: "string \<Rightarrow> string \<Rightarrow> bool" where
  \<comment> \<open>\<open>p in s\<close> for two strings: \<open>p\<close> occurs as a contiguous piece of \<open>s\<close>.\<close>
  "contains [] p = (p = [])"
| "contains (c # cs) p = (startswith (c # cs) p \<or> contains cs p)"

section \<open>Filename sanitization (both downloaders)\<close>

definition invalid_chars :: string where
  \<comment> \<open>\<open>'<>:"/\\|?*'\<close>: the double quote is code 0x22, the backslash 0x5C.\<close>
  "invalid_chars =
     [CHR ''<'', CHR ''>'', CHR '':'', CHR 0x22, CHR ''/'', CHR 0x5C, CHR ''|'', CHR ''?'', CHR ''*'']"

definition sanitize_filename :: "string \<Rightarrow> string" where
  \<comment> \<open>The \<open>for char in invalid_chars\<close> loop rebinds \<open>filename\<close> once per character, then
      the result is stripped.\<close>
  "sanitize_filename filename =
     strip (fold (\<lambda>char fn. replace char (CHR ''_'') fn) invalid_chars filename)"

section \<open>What both downloaders share\<close>

text \<open>
  Exceptions are values. Only what the code distinguishes is kept: both scripts catch
  \<open>Exception\<close> as a whole or let it propagate.
\<close>

datatype exn =
    RequestException        \<comment> \<open>the HTTP session could not complete a request\<close>
  | HTTPError nat           \<comment> \<open>\<open>raise_for_status\<close> on a 4xx or 5xx answer\<close>
  | JSONDecodeError         \<comment> \<open>\<open>json.load\<close> or \<open>response.json()\<close> on a malformed document\<close>
  | AttributeError          \<comment> \<open>an attribute of \<open>None\<close>\<close>
  | OSError                 \<comment> \<open>a failing file-system call\<close>
  | WebDriverException      \<comment> \<open>a failing browser call\<close>

text \<open>
  A \<open>pathlib.Path\<close> is kept symbolic: how the operating system resolves it is the
  environment's business.
\<close>

datatype path =
    Path string             \<comment> \<open>\<open>Path(s)\<close>\<close>
  | Join path string        \<comment> \<open>\<open>p / s\<close>\<close>
  | Parent path             \<comment> \<open>\<open>p.parent\<close>\<close>

record stats =
  districts :: int
  constituencies :: int
  parts :: int
  downloaded :: int
  failed :: int

text \<open>An entry of a dropdown as the scripts build it: \<open>{'value': ..., 'name': ...}\<close>.\<close>

record entry =
  entry_value :: string
  name :: string

text \<open>
  The values that reach the requests downloader from a JSON reply are not typed by the
  code. The model keeps of such a value what the code can observe: whether it is a
  \<open>str\<close>, and the text that formatting it in an f-string gives (\<open>str(v)\<close>). A \<open>dict\<close>
  with string keys is an association list.
\<close>

datatype pyvalue =
    Text string     \<comment> \<open>a \<open>str\<close>\<close>
  | Other string    \<comment> \<open>a value of any other type, with its \<open>str()\<close>\<close>

fun str :: "pyvalue \<Rightarrow> string" where
  \<comment> \<open>\<open>f"{v}"\<close>\<close>
  "str (Text s) = s"
| "str (Other s) = s"

type_synonym dict = "(string \<times> pyvalue) list"

definition dict_get :: "dict \<Rightarrow> string \<Rightarrow> pyvalue \<Rightarrow> pyvalue" where
  \<comment> \<open>\<open>d.get(key, dflt)\<close>\<close>
  "dict_get d key dflt = (case map_of d key of None \<Rightarrow> dflt | Some v \<Rightarrow> v)"

text \<open>An element of a JSON list: an object, or a value of another type.\<close>

datatype item =
    Object dict
  | Not_object

record response =
  status_code :: nat
  content :: string

datatype request =
    GET string
  | POST string dict

text \<open>The fetcher's arguments: district name, constituency name, part value, part name.\<close>

type_synonym part_call = "string \<times> string \<times> string \<times> string"

text \<open>
  The environment is deterministic and has a memory: every answer it gives is a function
  of the history of effects so far. An event is logged when its effect has happened; a
  file-system call that fails leaves no event.
\<close>

datatype event =
    Sent request                  \<comment> \<open>an HTTP request handed to the session (any outcome)\<close>
  | Slept real                    \<comment> \<open>\<open>time.sleep(t)\<close>\<close>
  | Mkdir path bool               \<comment> \<open>\<open>p.mkdir(parents=b, exist_ok=True)\<close> succeeded\<close>
  | Wrote path string             \<comment> \<open>\<open>open(p, 'w')\<close> and the write succeeded\<close>
  | Stats_printed stats           \<comment> \<open>\<open>print_stats()\<close>\<close>
  | Driver_started                \<comment> \<open>\<open>webdriver.Chrome(...)\<close> returned a driver\<close>
  | Driver_closed                 \<comment> \<open>\<open>driver.quit()\<close>\<close>
  | Page_loaded string            \<comment> \<open>\<open>driver.get(url)\<close> succeeded\<close>
  | Fetched part_call bool        \<comment> \<open>\<open>download_part_data\<close> ran, with what it returned\<close>

text \<open>
  The file system: \<open>mkdir w tr p b\<close> answers \<open>p.mkdir(parents=b, exist_ok=True)\<close> after
  the history \<open>tr\<close> (\<open>None\<close> when it succeeds); \<open>write_file\<close> opens \<open>p\<close> for writing, writes
  the text and closes, as one step (a write that fails is taken to leave the file as it
  was); \<open>path_exists\<close> is \<open>p.exists()\<close>; \<open>read_file\<close> opens \<open>p\<close> for reading and returns
  its text.
\<close>

record os_world =
  mkdir :: "event list \<Rightarrow> path \<Rightarrow> bool \<Rightarrow> exn option"
  write_file :: "event list \<Rightarrow> path \<Rightarrow> string \<Rightarrow> exn option"
  path_exists :: "event list \<Rightarrow> path \<Rightarrow> bool"
  read_file :: "event list \<Rightarrow> path \<Rightarrow> exn + string"

definition do_mkdir :: "'a os_world_scheme \<Rightarrow> path \<Rightarrow> bool \<Rightarrow> event list \<Rightarrow> exn + event list" where
  "do_mkdir w p parents tr =
     (case mkdir w tr p parents of Some e \<Rightarrow> Inl e | None \<Rightarrow> Inr (tr @ [Mkdir p parents]))"

definition do_write :: "'a os_world_scheme \<Rightarrow> path \<Rightarrow> string \<Rightarrow> event list \<Rightarrow> exn + event list" where
  "do_write w p text tr =
     (case write_file w tr p text of Some e \<Rightarrow> Inl e | None \<Rightarrow> Inr (tr @ [Wrote p text]))"

definition basename :: "string \<Rightarrow> string" where
  \<comment> \<open>\<open>os.path.basename\<close> (POSIX): what follows the last slash.\<close>
  "basename s = rev (takeWhile (\<lambda>c. c \<noteq> CHR ''/'') (rev s))"

record obj =
  output_dir :: path
  stats :: stats
  trace :: "event list"

definition zero_stats :: stats where
  "zero_stats = \<lparr>districts = 0, constituencies = 0, parts = 0, downloaded = 0, failed = 0\<rparr>"

section \<open>The requests downloader: \<open>download_asdd_data.py\<close>\<close>

text \<open>
  Beside the file system, \<open>ASDDDownloader\<close> talks to an HTTP session (\<open>http\<close>: the
  answer to \<open>session.get\<close> or \<open>session.post\<close> after a history) and reads documents through
  libraries, which are pure: \<open>district_select\<close> gives the \<open>(value, text)\<close> pairs of the
  options of the district dropdown of a page, \<open>None\<close> when the page has none (a missing
  \<open>value\<close> attribute reads as the empty string); \<open>anchors\<close> gives the \<open>href\<close> (when
  present) and the text of every link of a page; \<open>prettify\<close> is \<open>soup.prettify()\<close>;
  \<open>json\<close> is \<open>response.json()\<close>; \<open>urljoin\<close> is \<open>urllib.parse.urljoin\<close>.
\<close>

datatype json_reply =
    Not_json                \<comment> \<open>\<open>response.json()\<close> raises\<close>
  | Json_list "item list"   \<comment> \<open>a list\<close>
  | Json_other              \<comment> \<open>any other JSON value\<close>

record http_world = os_world +
  http :: "event list \<Rightarrow> request \<Rightarrow> exn + response"
  district_select :: "string \<Rightarrow> (string \<times> string) list option"
  anchors :: "string \<Rightarrow> (string option \<times> string) list"
  prettify :: "string \<Rightarrow> string"
  json :: "string \<Rightarrow> json_reply"
  urljoin :: "string \<Rightarrow> string \<Rightarrow> string"

record downloader = obj +
  base_url :: string
  asd_url :: string

definition new_downloader :: "'a http_world_scheme \<Rightarrow> string \<Rightarrow> string \<Rightarrow> event list \<Rightarrow> exn + downloader" where
  \<comment> \<open>\<open>ASDDDownloader(base_url, output_dir)\<close>, started after the history \<open>tr\<close>.\<close>
  "new_downloader w base out tr =
     (case do_mkdir w (Path out) False tr of
        Inl e \<Rightarrow> Inl e
      | Inr tr' \<Rightarrow>
          Inr \<lparr>output_dir = Path out, stats = zero_stats, trace = tr',
               base_url = base, asd_url = base @ ''/asd_sir''\<rparr>)"

definition raise_for_status :: "response \<Rightarrow> exn + response" where
  "raise_for_status r =
     (if 400 \<le> status_code r \<and> status_code r < 600 then Inl (HTTPError (status_code r)) else Inr r)"

definition session_get :: "'a http_world_scheme \<Rightarrow> string \<Rightarrow> event list \<Rightarrow> exn + response" where
  \<comment> \<open>The body of the \<open>try\<close> of \<open>get_page\<close>: \<open>session.get\<close>, then \<open>raise_for_status\<close>.\<close>
  "session_get w url tr =
     (case http w tr (GET url) of Inl e \<Rightarrow> Inl e | Inr r \<Rightarrow> raise_for_status r)"

text \<open>
  \<open>get_page\<close>: the loop over \<open>range(max_retries)\<close> runs over the list of attempt
  numbers still to come. Inside the loop \<open>max_retries\<close> is at least 1, so the
  subtraction is the integer one. A loop that never runs returns \<open>None\<close>.
\<close>

fun get_page_from ::
  "'a http_world_scheme \<Rightarrow> string \<Rightarrow> nat \<Rightarrow> nat list \<Rightarrow> event list \<Rightarrow> (exn + response option) \<times> event list"
where
  "get_page_from w url max_retries [] tr = (Inr None, tr)"
| "get_page_from w url max_retries (attempt # rest) tr =
     (case session_get w url tr of
        Inr r \<Rightarrow> (Inr (Some r), tr @ [Sent (GET url)])
      | Inl e \<Rightarrow>
          if attempt < max_retries - 1
          then get_page_from w url max_retries rest (tr @ [Sent (GET url), Slept (2 ^ attempt)])
          else (Inl e, tr @ [Sent (GET url)]))"

definition get_page ::
  "'a http_world_scheme \<Rightarrow> string \<Rightarrow> nat \<Rightarrow> event list \<Rightarrow> (exn + response option) \<times> event list"
where
  "get_page w url max_retries tr = get_page_from w url max_retries [0..<max_retries] tr"

definition get_districts :: "'a http_world_scheme \<Rightarrow> string \<Rightarrow> event list \<Rightarrow> entry list \<times> event list" where
  \<comment> \<open>Every exception ends in \<open>return []\<close>; so does a page without the dropdown.\<close>
  "get_districts w url tr =
     (case get_page w url 3 tr of
        (Inl e, tr') \<Rightarrow> ([], tr')
      | (Inr None, tr') \<Rightarrow> ([], tr')
      | (Inr (Some r), tr') \<Rightarrow>
          (case district_select w (content r) of
             None \<Rightarrow> ([], tr')
           | Some options \<Rightarrow>
               (map (\<lambda>(v, t). \<lparr>entry_value = strip v, name = strip t\<rparr>)
                  (filter (\<lambda>(v, t). strip v \<noteq> [] \<and> strip v \<noteq> ''0'' \<and> lower (strip t) \<noteq> ''select'')
                     options),
                tr')))"

text \<open>
  The endpoint loop of \<open>get_constituencies\<close> and \<open>get_parts\<close>: one \<open>session.post\<close> per
  candidate endpoint; an exception, a status other than 200 and an answer that is not a
  non-empty list all lead to the next endpoint.
\<close>

fun try_endpoints :: "'a http_world_scheme \<Rightarrow> dict \<Rightarrow> string list \<Rightarrow> event list \<Rightarrow> item list \<times> event list" where
  "try_endpoints w data [] tr = ([], tr)"
| "try_endpoints w data (endpoint # rest) tr =
     (case http w tr (POST endpoint data) of
        Inl e \<Rightarrow> try_endpoints w data rest (tr @ [Sent (POST endpoint data)])
      | Inr r \<Rightarrow>
          if status_code r = 200
          then (case json w (content r) of
                  Json_list xs \<Rightarrow>
                    if length xs > 0 then (xs, tr @ [Sent (POST endpoint data)])
                    else try_endpoints w data rest (tr @ [Sent (POST endpoint data)])
                | Json_other \<Rightarrow> try_endpoints w data rest (tr @ [Sent (POST endpoint data)])
                | Not_json \<Rightarrow> try_endpoints w data rest (tr @ [Sent (POST endpoint data)]))
          else try_endpoints w data rest (tr @ [Sent (POST endpoint data)]))"

definition get_constituencies ::
  "'a http_world_scheme \<Rightarrow> string \<Rightarrow> string \<Rightarrow> event list \<Rightarrow> item list \<times> event list"
where
  "get_constituencies w base district_code tr =
     try_endpoints w [(''district'', Text district_code)]
       [base @ ''/api/getAC'', base @ ''/api/getConstituencies'',
        base @ ''/getAC.php'', base @ ''/getConstituency.php''] tr"

definition get_parts ::
  "'a http_world_scheme \<Rightarrow> string \<Rightarrow> string \<Rightarrow> pyvalue \<Rightarrow> event list \<Rightarrow> item list \<times> event list"
where
  "get_parts w base district_code ac_code tr =
     try_endpoints w [(''district'', Text district_code), (''ac'', ac_code)]
       [base @ ''/api/getParts'', base @ ''/api/getPartNo'', base @ ''/getPart.php''] tr"

definition download_file :: "'a http_world_scheme \<Rightarrow> string \<Rightarrow> path \<Rightarrow> event list \<Rightarrow> bool \<times> event list" where
  \<comment> \<open>Whatever is raised inside the \<open>try\<close> ends in \<open>return False\<close>.\<close>
  "download_file w url output_path tr =
     (case get_page w url 3 tr of
        (Inl e, tr1) \<Rightarrow> (False, tr1)
      | (Inr None, tr1) \<Rightarrow> (False, tr1)
      | (Inr (Some r), tr1) \<Rightarrow>
          (case do_mkdir w (Parent output_path) True tr1 of
             Inl e \<Rightarrow> (False, tr1)
           | Inr tr2 \<Rightarrow>
               (case do_write w output_path (content r) tr2 of
                  Inl e \<Rightarrow> (False, tr2)
                | Inr tr3 \<Rightarrow> (True, tr3))))"

definition count_download :: "bool \<Rightarrow> stats \<Rightarrow> stats" where
  \<comment> \<open>\<open>if self.download_file(...): downloaded += 1 else: failed += 1\<close>\<close>
  "count_download ok st =
     (if ok then st\<lparr>downloaded := downloaded st + 1\<rparr> else st\<lparr>failed := failed st + 1\<rparr>)"

definition download_url :: "string \<Rightarrow> string \<Rightarrow> pyvalue \<Rightarrow> pyvalue \<Rightarrow> string" where
  \<comment> \<open>\<open>f"{self.base_url}/asd_download.php?district={district_code}&ac={ac_code}&part={part_no}"\<close>\<close>
  "download_url base district_code ac_code part_no =
     base @ ''/asd_download.php?district='' @ district_code @ ''&ac='' @ str ac_code
       @ ''&part='' @ str part_no"

definition download_part ::
  "'a http_world_scheme \<Rightarrow> string \<Rightarrow> pyvalue \<Rightarrow> path \<Rightarrow> dict \<Rightarrow> downloader \<Rightarrow> downloader"
where
  \<comment> \<open>The body of \<open>for part in parts\<close>, for a part that is an object.\<close>
  "download_part w district_code ac_code ac_dir part s =
     (let part_no = dict_get part ''part'' (dict_get part ''value'' (Text []));
          output_file = Join ac_dir (''ASDD_Part_'' @ str part_no @ ''.pdf'');
          (ok, tr) = download_file w (download_url (base_url s) district_code ac_code part_no)
                       output_file (trace s)
      in s\<lparr>stats := count_download ok (stats s), trace := tr @ [Slept 0.5]\<rparr>)"

fun parts_loop ::
  "'a http_world_scheme \<Rightarrow> string \<Rightarrow> pyvalue \<Rightarrow> path \<Rightarrow> item list \<Rightarrow> downloader \<Rightarrow> exn option \<times> downloader"
where
  \<comment> \<open>\<open>for part in parts\<close>: \<open>part.get\<close> raises on a part that is not an object.\<close>
  "parts_loop w district_code ac_code ac_dir [] s = (None, s)"
| "parts_loop w district_code ac_code ac_dir (Not_object # rest) s = (Some AttributeError, s)"
| "parts_loop w district_code ac_code ac_dir (Object part # rest) s =
     parts_loop w district_code ac_code ac_dir rest (download_part w district_code ac_code ac_dir part s)"

fun process_ac ::
  "'a http_world_scheme \<Rightarrow> string \<Rightarrow> path \<Rightarrow> item \<Rightarrow> downloader \<Rightarrow> exn option \<times> downloader"
where
  \<comment> \<open>The body of \<open>for ac in constituencies\<close>: \<open>ac.get\<close> raises on a constituency that is
      not an object, \<open>sanitize_filename\<close> (its \<open>filename.replace\<close>) on a name that is not a
      \<open>str\<close>, and \<open>mkdir\<close> may raise.\<close>
  "process_ac w district_code district_dir Not_object s = (Some AttributeError, s)"
| "process_ac w district_code district_dir (Object ac) s =
     (let ac_name = dict_get ac ''name'' (dict_get ac ''text'' (Text ''Unknown''));
          ac_code = dict_get ac ''value'' (dict_get ac ''code'' (Text []))
      in case ac_name of
           Other v \<Rightarrow> (Some AttributeError, s)
         | Text n \<Rightarrow>
             (let ac_dir = Join district_dir (sanitize_filename n)
              in case do_mkdir w ac_dir False (trace s) of
                   Inl e \<Rightarrow> (Some e, s)
                 | Inr tr1 \<Rightarrow>
                     (let (ps, tr2) = get_parts w (base_url s) district_code ac_code tr1;
                          s2 = s\<lparr>stats := (stats s)\<lparr>parts := parts (stats s) + int (length ps)\<rparr>,
                                 trace := tr2\<rparr>
                      in parts_loop w district_code ac_code ac_dir ps s2)))"

fun ac_loop ::
  "'a http_world_scheme \<Rightarrow> string \<Rightarrow> path \<Rightarrow> item list \<Rightarrow> downloader \<Rightarrow> exn option \<times> downloader"
where
  "ac_loop w district_code district_dir [] s = (None, s)"
| "ac_loop w district_code district_dir (ac # acs) s =
     (case process_ac w district_code district_dir ac s of
        (Some e, s') \<Rightarrow> (Some e, s')
      | (None, s') \<Rightarrow> ac_loop w district_code district_dir acs s')"

definition process_district :: "'a http_world_scheme \<Rightarrow> entry \<Rightarrow> downloader \<Rightarrow> exn option \<times> downloader" where
  \<comment> \<open>The body of \<open>for district in districts\<close>.\<close>
  "process_district w district s =
     (let district_name = name district;
          district_code = entry_value district;
          district_dir = Join (output_dir s) (sanitize_filename district_name)
      in case do_mkdir w district_dir False (trace s) of
           Inl e \<Rightarrow> (Some e, s)
         | Inr tr1 \<Rightarrow>
             (let (acs, tr2) = get_constituencies w (base_url s) district_code tr1;
                  s2 = s\<lparr>stats := (stats s)\<lparr>constituencies := constituencies (stats s) + int (length acs)\<rparr>,
                         trace := tr2\<rparr>
              in ac_loop w district_code district_dir acs s2))"

fun district_loop :: "'a http_world_scheme \<Rightarrow> entry list \<Rightarrow> downloader \<Rightarrow> exn option \<times> downloader" where
  "district_loop w [] s = (None, s)"
| "district_loop w (district # rest) s =
     (case process_district w district s of
        (Some e, s') \<Rightarrow> (Some e, s')
      | (None, s') \<Rightarrow> district_loop w rest s')"

definition wanted_link :: "string option \<Rightarrow> bool" where
  \<comment> \<open>\<open>lambda x: x and ('.pdf' in x.lower() or 'download' in x.lower())\<close>\<close>
  "wanted_link x =
     (case x of
        None \<Rightarrow> False
      | Some h \<Rightarrow> h \<noteq> [] \<and> (contains (lower h) ''.pdf'' \<or> contains (lower h) ''download''))"

definition download_link :: "'a http_world_scheme \<Rightarrow> string option \<times> string \<Rightarrow> downloader \<Rightarrow> downloader" where
  \<comment> \<open>The body of \<open>for link in links\<close>; the links kept all have an \<open>href\<close>.\<close>
  "download_link w link s =
     (let href = (case fst link of None \<Rightarrow> [] | Some h \<Rightarrow> h);
          text = strip (snd link);
          url = (if startswith href ''http'' then href else urljoin w (asd_url s) href);
          filename = sanitize_filename (if text \<noteq> [] then text else basename href);
          filename = (if \<not> endswith filename ''.pdf'' then filename @ ''.pdf'' else filename);
          output_file = Join (output_dir s) filename;
          (ok, tr) = download_file w url output_file (trace s)
      in s\<lparr>stats := count_download ok (stats s), trace := tr @ [Slept 0.5]\<rparr>)"

definition scrape_direct_links :: "'a http_world_scheme \<Rightarrow> downloader \<Rightarrow> downloader" where
  \<comment> \<open>The whole body is one \<open>try\<close>; the handler logs and returns.\<close>
  "scrape_direct_links w s =
     (case get_page w (asd_url s) 3 (trace s) of
        (Inl e, tr1) \<Rightarrow> s\<lparr>trace := tr1\<rparr>
      | (Inr None, tr1) \<Rightarrow> s\<lparr>trace := tr1\<rparr>
      | (Inr (Some r), tr1) \<Rightarrow>
          (case do_write w (Join (output_dir s) ''page_source.html'') (prettify w (content r)) tr1 of
             Inl e \<Rightarrow> s\<lparr>trace := tr1\<rparr>
           | Inr tr2 \<Rightarrow>
               fold (download_link w) (filter (\<lambda>l. wanted_link (fst l)) (anchors w (content r)))
                 (s\<lparr>trace := tr2\<rparr>)))"

definition download_all :: "'a http_world_scheme \<Rightarrow> downloader \<Rightarrow> exn option \<times> downloader" where
  \<comment> \<open>\<open>None\<close>: the call returns; \<open>Some e\<close>: \<open>e\<close> propagates to the caller.\<close>
  "download_all w s =
     (let (ds, tr1) = get_districts w (asd_url s) (trace s);
          s1 = s\<lparr>trace := tr1\<rparr>
      in if ds = [] then (None, scrape_direct_links w s1)
         else (case district_loop w ds (s1\<lparr>stats := (stats s1)\<lparr>districts := int (length ds)\<rparr>\<rparr>) of
                 (Some e, s3) \<Rightarrow> (Some e, s3)
               | (None, s3) \<Rightarrow> (None, s3\<lparr>trace := trace s3 @ [Stats_printed (stats s3)]\<rparr>)))"

section \<open>The browser downloader: \<open>download_asdd_selenium.py\<close>\<close>

text \<open>The progress ledger: the dictionary \<open>{'completed': [...], 'failed': [...]}\<close>.\<close>

record progress =
  completed :: "string list"
  failed :: "string list"

text \<open>
  Beside the file system, \<open>ASDDSeleniumDownloader\<close> drives a browser and reads and writes
  JSON. \<open>start_driver\<close> answers \<open>setup_driver()\<close>: the driver is ready, or an exception
  is raised before \<open>self.driver\<close> is assigned, or one is raised after (by
  \<open>implicitly_wait\<close>). \<open>load_page\<close> answers \<open>driver.get(url)\<close> (\<open>None\<close> when it
  succeeds). The portal's hierarchy is taken as fixed:
  \<open>districts_found\<close> is what the scraping of \<open>get_districts\<close> collects (\<open>None\<close> when it
  raises), \<open>constituencies_found\<close> and \<open>parts_found\<close> are what \<open>get_constituencies\<close> and
  \<open>get_parts\<close> return for a dropdown value (the empty list when they raise).
  \<open>part_downloaded\<close> is what the clicking inside \<open>download_part_data\<close> comes to, after a
  history. \<open>json_load\<close> is \<open>json.load\<close> on the text of a file (\<open>None\<close> when it raises)
  and \<open>json_dump\<close> is the text \<open>json.dump(..., indent=2)\<close> writes. The ledger in memory
  is typed: a file whose text decodes to a value of another shape is not modelled.
\<close>

datatype setup_outcome =
    Driver_ready
  | No_driver exn
  | Driver_then exn

record browser_world = os_world +
  start_driver :: "event list \<Rightarrow> setup_outcome"
  load_page :: "event list \<Rightarrow> string \<Rightarrow> exn option"
  districts_found :: "entry list option"
  constituencies_found :: "string \<Rightarrow> entry list"
  parts_found :: "string \<Rightarrow> entry list"
  part_downloaded :: "event list \<Rightarrow> part_call \<Rightarrow> bool"
  json_load :: "string \<Rightarrow> progress option"
  json_dump :: "progress \<Rightarrow> string"

record selenium_downloader = obj +
  headless :: bool
  url :: string
  progress_file :: path
  progress :: progress
  driver :: bool

definition load_progress :: "'a browser_world_scheme \<Rightarrow> path \<Rightarrow> event list \<Rightarrow> exn + progress" where
  \<comment> \<open>Nothing is caught: what \<open>open\<close> or \<open>json.load\<close> raises reaches the caller.\<close>
  "load_progress w file tr =
     (if path_exists w tr file
      then (case read_file w tr file of
              Inl e \<Rightarrow> Inl e
            | Inr text \<Rightarrow>
                (case json_load w text of None \<Rightarrow> Inl JSONDecodeError | Some p \<Rightarrow> Inr p))
      else Inr \<lparr>completed = [], failed = []\<rparr>)"

definition save_progress :: "'a browser_world_scheme \<Rightarrow> selenium_downloader \<Rightarrow> exn option \<times> selenium_downloader" where
  "save_progress w s =
     (case do_write w (progress_file s) (json_dump w (progress s)) (trace s) of
        Inl e \<Rightarrow> (Some e, s)
      | Inr tr \<Rightarrow> (None, s\<lparr>trace := tr\<rparr>))"

definition new_selenium_downloader ::
  "'a browser_world_scheme \<Rightarrow> string \<Rightarrow> bool \<Rightarrow> event list \<Rightarrow> exn + selenium_downloader"
where
  \<comment> \<open>\<open>ASDDSeleniumDownloader(output_dir, headless)\<close>, started after the history \<open>tr\<close>.\<close>
  "new_selenium_downloader w out hl tr =
     (case do_mkdir w (Path out) False tr of
        Inl e \<Rightarrow> Inl e
      | Inr tr' \<Rightarrow>
          (case load_progress w (Join (Path out) ''download_progress.json'') tr' of
             Inl e \<Rightarrow> Inl e
           | Inr p \<Rightarrow>
               Inr \<lparr>output_dir = Path out, stats = zero_stats, trace = tr',
                    headless = hl, url = ''https://ceowestbengal.wb.gov.in/asd_sir'',
                    progress_file = Join (Path out) ''download_progress.json'',
                    progress = p, driver = False\<rparr>))"

definition setup_driver :: "'a browser_world_scheme \<Rightarrow> selenium_downloader \<Rightarrow> exn option \<times> selenium_downloader" where
  "setup_driver w s =
     (case start_driver w (trace s) of
        No_driver e \<Rightarrow> (Some e, s)
      | Driver_then e \<Rightarrow> (Some e, s\<lparr>driver := True, trace := trace s @ [Driver_started]\<rparr>)
      | Driver_ready \<Rightarrow> (None, s\<lparr>driver := True, trace := trace s @ [Driver_started]\<rparr>))"

definition close_driver :: "selenium_downloader \<Rightarrow> selenium_downloader" where
  "close_driver s = (if driver s then s\<lparr>trace := trace s @ [Driver_closed]\<rparr> else s)"

definition print_stats :: "selenium_downloader \<Rightarrow> selenium_downloader" where
  "print_stats s = s\<lparr>trace := trace s @ [Stats_printed (stats s)]\<rparr>"

definition get_districts_sel :: "'a browser_world_scheme \<Rightarrow> selenium_downloader \<Rightarrow> entry list \<times> selenium_downloader" where
  \<comment> \<open>The counter is set on the way out of the \<open>try\<close> only; the handler returns \<open>[]\<close>.\<close>
  "get_districts_sel w s =
     (case districts_found w of
        None \<Rightarrow> ([], s)
      | Some ds \<Rightarrow> (ds, s\<lparr>stats := (stats s)\<lparr>districts := int (length ds)\<rparr>\<rparr>))"

definition get_constituencies_sel :: "'a browser_world_scheme \<Rightarrow> string \<Rightarrow> entry list" where
  "get_constituencies_sel w district_value = constituencies_found w district_value"

definition get_parts_sel :: "'a browser_world_scheme \<Rightarrow> string \<Rightarrow> entry list" where
  "get_parts_sel w ac_value = parts_found w ac_value"

definition download_part_data ::
  "'a browser_world_scheme \<Rightarrow> string \<Rightarrow> string \<Rightarrow> string \<Rightarrow> string \<Rightarrow> selenium_downloader
     \<Rightarrow> bool \<times> selenium_downloader"
where
  \<comment> \<open>Every \<open>return False\<close> comes after \<open>stats['failed'] += 1\<close>, the \<open>return True\<close>
      after \<open>stats['downloaded'] += 1\<close>; nothing propagates.\<close>
  "download_part_data w district_name ac_name part_value part_name s =
     (let ok = part_downloaded w (trace s) (district_name, ac_name, part_value, part_name)
      in (ok, s\<lparr>stats := count_download ok (stats s),
                 trace := trace s @ [Fetched (district_name, ac_name, part_value, part_name) ok]\<rparr>))"

definition ledger_key :: "string \<Rightarrow> string \<Rightarrow> string \<Rightarrow> string" where
  \<comment> \<open>\<open>f"{district_name}|{ac_name}|{part_name}"\<close>\<close>
  "ledger_key district_name ac_name part_name = district_name @ ''|'' @ ac_name @ ''|'' @ part_name"

definition mark :: "bool \<Rightarrow> string \<Rightarrow> progress \<Rightarrow> progress" where
  \<comment> \<open>\<open>if success: progress['completed'].append(key) else: progress['failed'].append(key)\<close>\<close>
  "mark success key p =
     (if success then p\<lparr>completed := completed p @ [key]\<rparr>
      else p\<lparr>progress.failed := progress.failed p @ [key]\<rparr>)"

definition process_part ::
  "'a browser_world_scheme \<Rightarrow> string \<Rightarrow> string \<Rightarrow> entry \<Rightarrow> selenium_downloader
     \<Rightarrow> exn option \<times> selenium_downloader"
where
  \<comment> \<open>The body of \<open>for part in parts\<close>; \<open>continue\<close> leaves it at once.\<close>
  "process_part w district_name ac_name part s =
     (let part_value = entry_value part;
          part_name = name part;
          key = ledger_key district_name ac_name part_name
      in if key \<in> set (completed (progress s)) then (None, s)
         else (let (success, s1) = download_part_data w district_name ac_name part_value part_name s;
                   s2 = s1\<lparr>progress := mark success key (progress s1)\<rparr>
               in case save_progress w s2 of
                    (Some e, s3) \<Rightarrow> (Some e, s3)
                  | (None, s3) \<Rightarrow> (None, s3\<lparr>trace := trace s3 @ [Slept 1]\<rparr>)))"

fun part_loop ::
  "'a browser_world_scheme \<Rightarrow> string \<Rightarrow> string \<Rightarrow> entry list \<Rightarrow> selenium_downloader
     \<Rightarrow> exn option \<times> selenium_downloader"
where
  "part_loop w district_name ac_name [] s = (None, s)"
| "part_loop w district_name ac_name (part # rest) s =
     (case process_part w district_name ac_name part s of
        (Some e, s') \<Rightarrow> (Some e, s')
      | (None, s') \<Rightarrow> part_loop w district_name ac_name rest s')"

definition process_ac_sel ::
  "'a browser_world_scheme \<Rightarrow> string \<Rightarrow> path \<Rightarrow> entry \<Rightarrow> selenium_downloader
     \<Rightarrow> exn option \<times> selenium_downloader"
where
  \<comment> \<open>The body of \<open>for ac in constituencies\<close>.\<close>
  "process_ac_sel w district_name district_dir ac s =
     (let ac_name = name ac;
          ac_value = entry_value ac;
          ac_dir = Join district_dir (sanitize_filename ac_name)
      in case do_mkdir w ac_dir False (trace s) of
           Inl e \<Rightarrow> (Some e, s)
         | Inr tr1 \<Rightarrow>
             (let ps = get_parts_sel w ac_value;
                  s1 = s\<lparr>stats := (stats s)\<lparr>parts := parts (stats s) + int (length ps)\<rparr>,
                         trace := tr1\<rparr>
              in case part_loop w district_name ac_name ps s1 of
                   (Some e, s2) \<Rightarrow> (Some e, s2)
                 | (None, s2) \<Rightarrow>
                     (case load_page w (trace s2) (url s2) of
                        Some e \<Rightarrow> (Some e, s2)
                      | None \<Rightarrow>
                          (None, s2\<lparr>trace := trace s2 @ [Page_loaded (url s2), Slept 2]\<rparr>))))"

fun ac_loop_sel ::
  "'a browser_world_scheme \<Rightarrow> string \<Rightarrow> path \<Rightarrow> entry list \<Rightarrow> selenium_downloader
     \<Rightarrow> exn option \<times> selenium_downloader"
where
  "ac_loop_sel w district_name district_dir [] s = (None, s)"
| "ac_loop_sel w district_name district_dir (ac # rest) s =
     (case process_ac_sel w district_name district_dir ac s of
        (Some e, s') \<Rightarrow> (Some e, s')
      | (None, s') \<Rightarrow> ac_loop_sel w district_name district_dir rest s')"

definition process_district_sel ::
  "'a browser_world_scheme \<Rightarrow> entry \<Rightarrow> selenium_downloader \<Rightarrow> exn option \<times> selenium_downloader"
where
  \<comment> \<open>The body of \<open>for district in districts\<close>.\<close>
  "process_district_sel w district s =
     (let district_name = name district;
          district_value = entry_value district;
          district_dir = Join (output_dir s) (sanitize_filename district_name)
      in case do_mkdir w district_dir False (trace s) of
           Inl e \<Rightarrow> (Some e, s)
         | Inr tr1 \<Rightarrow>
             (let acs = get_constituencies_sel w district_value;
                  s1 = s\<lparr>stats := (stats s)\<lparr>constituencies := constituencies (stats s) + int (length acs)\<rparr>,
                         trace := tr1\<rparr>
              in ac_loop_sel w district_name district_dir acs s1))"

fun district_loop_sel ::
  "'a browser_world_scheme \<Rightarrow> entry list \<Rightarrow> selenium_downloader \<Rightarrow> exn option \<times> selenium_downloader"
where
  "district_loop_sel w [] s = (None, s)"
| "district_loop_sel w (district # rest) s =
     (case process_district_sel w district s of
        (Some e, s') \<Rightarrow> (Some e, s')
      | (None, s') \<Rightarrow> district_loop_sel w rest s')"

definition select_districts :: "string option \<Rightarrow> entry list \<Rightarrow> entry list" where
  \<comment> \<open>\<open>if test_district:\<close> holds for a non-empty string only.\<close>
  "select_districts test_district ds =
     (case test_district of
        None \<Rightarrow> ds
      | Some t \<Rightarrow> if t = [] then ds else filter (\<lambda>d. contains (lower (name d)) (lower t)) ds)"

definition download_all_body ::
  "'a browser_world_scheme \<Rightarrow> string option \<Rightarrow> selenium_downloader \<Rightarrow> exn option \<times> selenium_downloader"
where
  \<comment> \<open>The \<open>try\<close> block of \<open>download_all\<close>.\<close>
  "download_all_body w test_district s =
     (case setup_driver w s of
        (Some e, s1) \<Rightarrow> (Some e, s1)
      | (None, s1) \<Rightarrow>
          (let (ds, s2) = get_districts_sel w s1
           in district_loop_sel w (select_districts test_district ds) s2))"

definition download_all_sel ::
  "'a browser_world_scheme \<Rightarrow> string option \<Rightarrow> selenium_downloader \<Rightarrow> exn option \<times> selenium_downloader"
where
  \<comment> \<open>\<open>try: ... finally: close_driver(); print_stats()\<close>: the \<open>finally\<close> block runs on
      both ways out, and what was raised propagates after it.\<close>
  "download_all_sel w test_district s =
     (case download_all_body w test_district s of
        (r, s') \<Rightarrow> (r, print_stats (close_driver s')))"

section \<open>Reading a history\<close>

definition sent :: "event list \<Rightarrow> request list" where
  \<comment> \<open>The HTTP requests of a history, in order.\<close>
  "sent tr = concat (map (\<lambda>ev. case ev of Sent rq \<Rightarrow> [rq] | _ \<Rightarrow> []) tr)"

definition sleeps :: "event list \<Rightarrow> real list" where
  \<comment> \<open>The waits of a history, in order.\<close>
  "sleeps tr = concat (map (\<lambda>ev. case ev of Slept t \<Rightarrow> [t] | _ \<Rightarrow> []) tr)"

definition fs_events :: "event list \<Rightarrow> event list" where
  \<comment> \<open>The file-system effects of a history.\<close>
  "fs_events tr = filter (\<lambda>ev. case ev of Mkdir p b \<Rightarrow> True | Wrote p t \<Rightarrow> True | _ \<Rightarrow> False) tr"

definition written :: "path \<Rightarrow> event list \<Rightarrow> string list" where
  \<comment> \<open>The texts written to one path, in order.\<close>
  "written p tr = concat (map (\<lambda>ev. case ev of Wrote q t \<Rightarrow> if q = p then [t] else [] | _ \<Rightarrow> []) tr)"

definition fetches :: "event list \<Rightarrow> (part_call \<times> bool) list" where
  \<comment> \<open>The invocations of \<open>download_part_data\<close>, with their results.\<close>
  "fetches tr = concat (map (\<lambda>ev. case ev of Fetched c ok \<Rightarrow> [(c, ok)] | _ \<Rightarrow> []) tr)"

section \<open>The browser downloader's loops, flattened\<close>

text \<open>
  What the dropdowns offer does not depend on the history, so the three nested loops of
  \<open>download_all\<close> visit a list of steps that is known beforehand: entering a district
  (its directory, its constituencies), entering a constituency (its directory, its
  parts), one leaf, and leaving a constituency (back to the main page). The proofs run
  over this list; \<open>district_loop_sel_flat\<close> below shows that it is the same run.
\<close>

datatype action =
    Enter_district entry
  | Enter_ac entry entry
  | Leaf entry entry entry
  | Leave_ac

definition district_dir_of :: "selenium_downloader \<Rightarrow> entry \<Rightarrow> path" where
  "district_dir_of s d = Join (output_dir s) (sanitize_filename (name d))"

definition do_action ::
  "'a browser_world_scheme \<Rightarrow> action \<Rightarrow> selenium_downloader \<Rightarrow> exn option \<times> selenium_downloader"
where
  "do_action w a s =
     (case a of
        Enter_district d \<Rightarrow>
          (case do_mkdir w (district_dir_of s d) False (trace s) of
             Inl e \<Rightarrow> (Some e, s)
           | Inr tr1 \<Rightarrow>
               (None, s\<lparr>stats := (stats s)\<lparr>constituencies := constituencies (stats s)
                           + int (length (get_constituencies_sel w (entry_value d)))\<rparr>,
                        trace := tr1\<rparr>))
      | Enter_ac d ac \<Rightarrow>
          (case do_mkdir w (Join (district_dir_of s d) (sanitize_filename (name ac))) False (trace s) of
             Inl e \<Rightarrow> (Some e, s)
           | Inr tr1 \<Rightarrow>
               (None, s\<lparr>stats := (stats s)\<lparr>parts := parts (stats s)
                           + int (length (get_parts_sel w (entry_value ac)))\<rparr>,
                        trace := tr1\<rparr>))
      | Leaf d ac p \<Rightarrow> process_part w (name d) (name ac) p s
      | Leave_ac \<Rightarrow>
          (case load_page w (trace s) (url s) of
             Some e \<Rightarrow> (Some e, s)
           | None \<Rightarrow> (None, s\<lparr>trace := trace s @ [Page_loaded (url s), Slept 2]\<rparr>)))"

fun run_actions ::
  "'a browser_world_scheme \<Rightarrow> action list \<Rightarrow> selenium_downloader \<Rightarrow> exn option \<times> selenium_downloader"
where
  "run_actions w [] s = (None, s)"
| "run_actions w (a # rest) s =
     (case do_action w a s of
        (Some e, s') \<Rightarrow> (Some e, s')
      | (None, s') \<Rightarrow> run_actions w rest s')"

definition ac_schedule :: "'a browser_world_scheme \<Rightarrow> entry \<Rightarrow> entry \<Rightarrow> action list" where
  "ac_schedule w d ac = Enter_ac d ac # map (Leaf d ac) (get_parts_sel w (entry_value ac)) @ [Leave_ac]"

definition district_schedule :: "'a browser_world_scheme \<Rightarrow> entry \<Rightarrow> action list" where
  "district_schedule w d =
     Enter_district d # concat (map (ac_schedule w d) (get_constituencies_sel w (entry_value d)))"

definition schedule :: "'a browser_world_scheme \<Rightarrow> entry list \<Rightarrow> action list" where
  "schedule w ds = concat (map (district_schedule w) ds)"

definition keys_of :: "action list \<Rightarrow> string list" where
  "keys_of as =
     concat (map (\<lambda>a. case a of Leaf d ac p \<Rightarrow> [ledger_key (name d) (name ac) (name p)] | _ \<Rightarrow> []) as)"

definition enumerated_keys :: "'a browser_world_scheme \<Rightarrow> entry list \<Rightarrow> string list" where
  \<comment> \<open>The ledger keys of all leaves below the given districts, in the order of the loops.\<close>
  "enumerated_keys w ds =
     concat (map (\<lambda>d.
       concat (map (\<lambda>ac.
         map (\<lambda>p. ledger_key (name d) (name ac) (name p)) (get_parts_sel w (entry_value ac)))
         (get_constituencies_sel w (entry_value d))))
       ds)"

definition districts_of_run :: "'a browser_world_scheme \<Rightarrow> string option \<Rightarrow> entry list" where
  \<comment> \<open>The districts the loop of \<open>download_all\<close> runs over.\<close>
  "districts_of_run w test_district =
     select_districts test_district (case districts_found w of None \<Rightarrow> [] | Some ds \<Rightarrow> ds)"

definition quiet_step :: "selenium_downloader \<Rightarrow> selenium_downloader \<Rightarrow> bool" where
  \<comment> \<open>A step that neither fetches nor writes, and leaves the ledger and the two outcome
      counters alone.\<close>
  "quiet_step s s' =
     (progress s' = progress s \<and> progress_file s' = progress_file s
      \<and> url s' = url s \<and> output_dir s' = output_dir s
      \<and> downloaded (stats s') = downloaded (stats s)
      \<and> stats.failed (stats s') = stats.failed (stats s)
      \<and> (\<exists>evs. trace s' = trace s @ evs \<and> fetches evs = [] \<and> (\<forall>p. written p evs = [])))"

section \<open>Unpersisted outcomes in a history\<close>

text \<open>
  A reader of the history who follows the ledger: \<open>Synced p\<close> when the progress file holds
  the ledger \<open>p\<close> with every outcome so far; \<open>Pending p\<close> when exactly one outcome, already
  in \<open>p\<close>, has not been written yet; \<open>Broken\<close> once a second outcome arrives before the
  first was written, or the progress file receives anything but the ledger.
\<close>

datatype flush_state = Synced progress | Pending progress | Broken

definition key_of :: "part_call \<Rightarrow> string" where
  "key_of c = (case c of (district_name, ac_name, part_value, part_name) \<Rightarrow>
                 ledger_key district_name ac_name part_name)"

fun flush_step :: "(progress \<Rightarrow> string) \<Rightarrow> path \<Rightarrow> flush_state \<Rightarrow> event \<Rightarrow> flush_state" where
  "flush_step dump file (Synced p) (Fetched c success) = Pending (mark success (key_of c) p)"
| "flush_step dump file (Pending p) (Fetched c success) = Broken"
| "flush_step dump file (Pending p) (Wrote q t) =
     (if q = file then (if t = dump p then Synced p else Broken) else Pending p)"
| "flush_step dump file (Synced p) (Wrote q t) =
     (if q = file \<and> t \<noteq> dump p then Broken else Synced p)"
| "flush_step dump file st ev = st"

definition flush_run :: "(progress \<Rightarrow> string) \<Rightarrow> path \<Rightarrow> flush_state \<Rightarrow> event list \<Rightarrow> flush_state" where
  "flush_run dump file st evs = foldl (flush_step dump file) st evs"

definition balance :: "stats \<Rightarrow> int" where
  \<comment> \<open>Outcomes counted beyond the parts counted.\<close>
  "balance st = downloaded st + stats.failed st - parts st"

section \<open>The portal as a run of the requests downloader finds it\<close>

text \<open>
  A session is steady when its answer to a \<open>POST\<close> does not depend on what happened
  before. Over a steady session the enumerations are functions of their arguments, and
  the leaves a run is to fetch can be listed beforehand: \<open>leaf_urls\<close> lists, for the
  districts given, the download address of every part of every constituency, in the order
  of the loops (elements that are not objects left out). \<open>listed_acs\<close> lists the
  constituencies enumerated for the districts given.
\<close>

definition steady :: "'a http_world_scheme \<Rightarrow> bool" where
  "steady v = (\<forall>tr e data. http v tr (POST e data) = http v [] (POST e data))"

fun objects :: "item list \<Rightarrow> dict list" where
  "objects [] = []"
| "objects (Object d # xs) = d # objects xs"
| "objects (Not_object # xs) = objects xs"

definition ac_urls :: "'a http_world_scheme \<Rightarrow> string \<Rightarrow> string \<Rightarrow> dict \<Rightarrow> string list" where
  "ac_urls v base district_code ac =
     (let ac_code = dict_get ac ''value'' (dict_get ac ''code'' (Text []))
      in map (\<lambda>part. download_url base district_code ac_code
                        (dict_get part ''part'' (dict_get part ''value'' (Text []))))
           (objects (fst (get_parts v base district_code ac_code []))))"

definition district_urls :: "'a http_world_scheme \<Rightarrow> string \<Rightarrow> entry \<Rightarrow> string list" where
  "district_urls v base district =
     concat (map (ac_urls v base (entry_value district))
               (objects (fst (get_constituencies v base (entry_value district) []))))"

definition leaf_urls :: "'a http_world_scheme \<Rightarrow> string \<Rightarrow> entry list \<Rightarrow> string list" where
  "leaf_urls v base ds = concat (map (district_urls v base) ds)"

definition listed_acs :: "'a http_world_scheme \<Rightarrow> string \<Rightarrow> entry list \<Rightarrow> item list" where
  "listed_acs v base ds = concat (map (\<lambda>d. fst (get_constituencies v base (entry_value d) [])) ds)"

text \<open>
  \<open>advanced t t' a n m E\<close>: from \<open>t\<close> to \<open>t'\<close> the requests downloader counted \<open>a\<close>
  constituencies and \<open>n\<close> parts, settled \<open>m\<close> downloads, lost nothing of its history and
  went through the events \<open>E\<close>.
\<close>

definition advanced :: "downloader \<Rightarrow> downloader \<Rightarrow> int \<Rightarrow> int \<Rightarrow> int \<Rightarrow> event set \<Rightarrow> bool" where
  "advanced t t' a n m E =
     (districts (stats t') = districts (stats t)
      \<and> constituencies (stats t') = constituencies (stats t) + a
      \<and> parts (stats t') = parts (stats t) + n
      \<and> downloaded (stats t') + stats.failed (stats t') = downloaded (stats t) + stats.failed (stats t) + m
      \<and> base_url t' = base_url t \<and> asd_url t' = asd_url t \<and> output_dir t' = output_dir t
      \<and> set (trace t) \<subseteq> set (trace t')
      \<and> E \<subseteq> set (trace t'))"

section \<open>What the ledger's round trip asks of the environment\<close>



section \<open>Test doubles\<close>

text \<open>
  Environments to run the model in. Their file system never fails and reads back the
  last text written to a path. The session of \<open>stub_world k\<close> fails each request until
  the same request has been sent \<open>k\<close> times, then answers from a table (404 for a request
  the table does not have).
\<close>

definition last_written :: "event list \<Rightarrow> path \<Rightarrow> exn + string" where
  "last_written tr p = (case rev (written p tr) of [] \<Rightarrow> Inl OSError | t # ts \<Rightarrow> Inr t)"

definition flaky ::
  "nat \<Rightarrow> (request \<times> response) list \<Rightarrow> event list \<Rightarrow> request \<Rightarrow> exn + response"
where
  "flaky k table tr rq =
     (if count_list (sent tr) rq < k then Inl RequestException
      else (case map_of table rq of
              None \<Rightarrow> Inr \<lparr>status_code = 404, content = []\<rparr>
            | Some r \<Rightarrow> Inr r))"

definition stub_world ::
  "nat \<Rightarrow> (request \<times> response) list \<Rightarrow> (string \<times> (string \<times> string) list) list
     \<Rightarrow> (string \<times> (string option \<times> string) list) list \<Rightarrow> (string \<times> item list) list \<Rightarrow> http_world"
where
  "stub_world k table selects links replies =
     \<lparr>mkdir = (\<lambda>tr p b. None),
      write_file = (\<lambda>tr p t. None),
      path_exists = (\<lambda>tr p. written p tr \<noteq> []),
      read_file = last_written,
      http = flaky k table,
      district_select = map_of selects,
      anchors = (\<lambda>c. case map_of links c of None \<Rightarrow> [] | Some ls \<Rightarrow> ls),
      prettify = (\<lambda>c. c),
      json = (\<lambda>c. case map_of replies c of None \<Rightarrow> Not_json | Some xs \<Rightarrow> Json_list xs),
      urljoin = (\<lambda>b h. ''http://portal/'' @ h)\<rparr>"

definition ok_response :: "string \<Rightarrow> response" where
  "ok_response c = \<lparr>status_code = 200, content = c\<rparr>"

definition recovering_world :: http_world where
  \<comment> \<open>Every request fails twice; from the third time on \<open>GET u\<close> is answered.\<close>
  "recovering_world = stub_world 2 [(GET ''u'', ok_response ''page'')] [] [] []"

definition dead_world :: http_world where
  \<comment> \<open>Every request is answered 404.\<close>
  "dead_world = stub_world 0 [] [] [] []"

definition flaky_portal :: http_world where
  \<comment> \<open>Every request fails twice; from the third time on the first constituency endpoint
      lists one constituency for district \<open>1\<close>.\<close>
  "flaky_portal =
     stub_world 2 [(POST ''B/api/getAC'' [(''district'', Text ''1'')], ok_response ''acs'')] [] []
       [(''acs'', [Object [(''name'', Text ''AC One''), (''value'', Text ''7'')]])]"

definition plain_portal :: http_world where
  \<comment> \<open>The main page has no district dropdown and one link to a PDF.\<close>
  "plain_portal =
     stub_world 0
       [(GET ''B/asd_sir'', ok_response ''plain''),
        (GET ''http://portal/files/list.pdf'', ok_response ''%PDF'')]
       []
       [(''plain'', [(Some ''files/list.pdf'', ''Roll 1'')])]
       []"

definition small_portal :: http_world where
  \<comment> \<open>Two districts: no endpoint lists a constituency for district \<open>1\<close>; district \<open>2\<close>
      has one constituency with two parts, of which the second has no document.\<close>
  "small_portal =
     stub_world 0
       [(GET ''B/asd_sir'', ok_response ''home''),
        (POST ''B/api/getAC'' [(''district'', Text ''2'')], ok_response ''acs2''),
        (POST ''B/api/getParts'' [(''district'', Text ''2''), (''ac'', Text ''7'')], ok_response ''parts7''),
        (GET ''B/asd_download.php?district=2&ac=7&part=1'', ok_response ''%PDF-1'')]
       [(''home'', [(''0'', ''Select''), (''1'', ''North''), (''2'', '' South '')])]
       []
       [(''acs2'', [Object [(''name'', Text ''AC: Seven''), (''value'', Text ''7'')]]),
        (''parts7'', [Object [(''part'', Text ''1'')], Object [(''part'', Other ''2'')]])]"

definition fresh_downloader :: downloader where
  \<comment> \<open>What \<open>ASDDDownloader('B', 'out')\<close> is once the output directory is made.\<close>
  "fresh_downloader =
     \<lparr>output_dir = Path ''out'', stats = zero_stats, trace = [Mkdir (Path ''out'') False],
      base_url = ''B'', asd_url = ''B/asd_sir''\<rparr>"

text \<open>
  A browser that always works, over a fixed portal; the parts listed in \<open>bad\<close> cannot be
  downloaded. Its JSON codec knows the documents of a table.
\<close>

definition stub_browser ::
  "entry list option \<Rightarrow> (string \<times> entry list) list \<Rightarrow> (string \<times> entry list) list
     \<Rightarrow> part_call list \<Rightarrow> (progress \<times> string) list \<Rightarrow> browser_world"
where
  "stub_browser ds acs ps bad docs =
     \<lparr>mkdir = (\<lambda>tr p b. None),
      write_file = (\<lambda>tr p t. None),
      path_exists = (\<lambda>tr p. written p tr \<noteq> []),
      read_file = last_written,
      start_driver = (\<lambda>tr. Driver_ready),
      load_page = (\<lambda>tr u. None),
      districts_found = ds,
      constituencies_found = (\<lambda>v. case map_of acs v of None \<Rightarrow> [] | Some xs \<Rightarrow> xs),
      parts_found = (\<lambda>v. case map_of ps v of None \<Rightarrow> [] | Some xs \<Rightarrow> xs),
      part_downloaded = (\<lambda>tr c. c \<notin> set bad),
      json_load = map_of (map (\<lambda>(p, t). (t, p)) docs),
      json_dump = (\<lambda>p. case map_of docs p of None \<Rightarrow> ''null'' | Some t \<Rightarrow> t)\<rparr>"

definition tiny_site :: "part_call list \<Rightarrow> (progress \<times> string) list \<Rightarrow> browser_world" where
  \<comment> \<open>Two districts: \<open>North\<close> with one constituency of two parts, \<open>South\<close> with no
      constituency.\<close>
  "tiny_site bad docs =
     stub_browser
       (Some [\<lparr>entry_value = ''1'', name = ''North''\<rparr>, \<lparr>entry_value = ''2'', name = ''South''\<rparr>])
       [(''1'', [\<lparr>entry_value = ''7'', name = ''AC Seven''\<rparr>])]
       [(''7'', [\<lparr>entry_value = ''101'', name = ''P1''\<rparr>, \<lparr>entry_value = ''102'', name = ''P2''\<rparr>])]
       bad docs"

definition fresh_selenium_downloader :: "progress \<Rightarrow> selenium_downloader" where
  \<comment> \<open>What \<open>ASDDSeleniumDownloader('out')\<close> is when \<open>load_progress\<close> returned \<open>p\<close>.\<close>
  "fresh_selenium_downloader p =
     \<lparr>output_dir = Path ''out'', stats = zero_stats, trace = [Mkdir (Path ''out'') False],
      headless = True, url = ''https://ceowestbengal.wb.gov.in/asd_sir'',
      progress_file = Join (Path ''out'') ''download_progress.json'',
      progress = p, driver = False\<rparr>"

definition tiny_docs :: "(progress \<times> string) list" where
  "tiny_docs =
     [(\<lparr>completed = [''North|AC Seven|P1''], failed = []\<rparr>, ''ledger 1''),
      (\<lparr>completed = [''North|AC Seven|P1''], failed = [''North|AC Seven|P2'']\<rparr>, ''ledger 2''),
      (\<lparr>completed = [''North|AC Seven|P1'', ''North|AC Seven|P2''], failed = []\<rparr>, ''ledger 3'')]"

section \<open>Properties of the string functions\<close>

lemma isspace_underscore: "\<not> isspace (CHR ''_'')"
  by (simp add: isspace_def)

lemma underscore_valid: "CHR ''_'' \<notin> set invalid_chars"
  by (simp add: invalid_chars_def)

lemma fold_replace:
  "fold (\<lambda>char fn. replace char r fn) cs s = map (\<lambda>c. if c \<in> set cs then r else c) s"
  if "r \<notin> set cs"
  using that
proof (induction cs arbitrary: s)
  case Nil
  then show ?case by simp
next
  case (Cons a cs)
  then have "fold (\<lambda>char fn. replace char r fn) (a # cs) s
      = map (\<lambda>c. if c \<in> set cs then r else c) (replace a r s)"
    by simp
  also have "\<dots> = map (\<lambda>c. if c \<in> set (a # cs) then r else c) s"
    using Cons.prems by (auto simp: replace_def)
  finally show ?case .
qed

lemma strip_subset: "set (strip s) \<subseteq> set s"
  unfolding strip_def by (auto dest!: set_dropWhileD)

lemma dropWhile_hd: "dropWhile P xs \<noteq> [] \<Longrightarrow> \<not> P (hd (dropWhile P xs))"
  by (simp add: hd_dropWhile)

lemma strip_last: "strip s \<noteq> [] \<Longrightarrow> \<not> isspace (last (strip s))"
  unfolding strip_def by (simp add: last_rev hd_dropWhile)

lemma strip_hd: "strip s \<noteq> [] \<Longrightarrow> \<not> isspace (hd (strip s))"
proof -
  assume ne: "strip s \<noteq> []"
  define t where "t = dropWhile isspace s"
  have st: "strip s = rev (dropWhile isspace (rev t))"
    by (simp add: strip_def t_def)
  have "t \<noteq> []" using ne st by auto
  then have hdt: "\<not> isspace (hd t)" unfolding t_def by (rule dropWhile_hd)
  have "\<exists>ws. rev t = ws @ dropWhile isspace (rev t)"
    by (metis takeWhile_dropWhile_id)
  then obtain ws where ws: "rev t = ws @ dropWhile isspace (rev t)" ..
  then have "t = strip s @ rev ws"
    by (metis rev_append rev_rev_ident st)
  with ne have "hd t = hd (strip s)" by simp
  with hdt show ?thesis by simp
qed

text \<open>
  C9. \<open>sanitize_filename\<close> replaces every occurrence of each of the nine characters
  \<open>< > : " / \ | ? *\<close> by the one placeholder \<open>_\<close> and then strips; the result holds none
  of the nine characters and neither starts nor ends with whitespace.
\<close>

theorem sanitize_filename_safe:
  "sanitize_filename f = strip (map (\<lambda>c. if c \<in> set invalid_chars then CHR ''_'' else c) f)
   \<and> set (sanitize_filename f) \<inter> set invalid_chars = {}
   \<and> (sanitize_filename f = []
       \<or> (\<not> isspace (hd (sanitize_filename f)) \<and> \<not> isspace (last (sanitize_filename f))))"
proof -
  have eq: "sanitize_filename f
      = strip (map (\<lambda>c. if c \<in> set invalid_chars then CHR ''_'' else c) f)"
    unfolding sanitize_filename_def by (simp add: fold_replace [OF underscore_valid])
  have "set (sanitize_filename f)
      \<subseteq> set (map (\<lambda>c. if c \<in> set invalid_chars then CHR ''_'' else c) f)"
    unfolding eq by (rule strip_subset)
  then have clean: "set (sanitize_filename f) \<inter> set invalid_chars = {}"
    using underscore_valid by auto
  have ends: "sanitize_filename f = []
       \<or> (\<not> isspace (hd (sanitize_filename f)) \<and> \<not> isspace (last (sanitize_filename f)))"
    unfolding eq using strip_hd strip_last by blast
  from eq clean ends show ?thesis by blast
qed

theorem sanitize_filename_safe_witness:
  "sanitize_filename (''  AC: 12/'' @ [CHR 0x22] @ ''Test'' @ [CHR 0x22] @ '' '') = ''AC_ 12__Test_''
   \<and> set ''AC_ 12__Test_'' \<inter> set invalid_chars = {}
   \<and> \<not> isspace (hd ''AC_ 12__Test_'') \<and> \<not> isspace (last ''AC_ 12__Test_'')"
proof -
  have v: "sanitize_filename (''  AC: 12/'' @ [CHR 0x22] @ ''Test'' @ [CHR 0x22] @ '' '')
      = ''AC_ 12__Test_''"
    by (simp add: sanitize_filename_def strip_def replace_def invalid_chars_def isspace_def)
  have "set (sanitize_filename (''  AC: 12/'' @ [CHR 0x22] @ ''Test'' @ [CHR 0x22] @ '' ''))
        \<inter> set invalid_chars = {}
      \<and> (sanitize_filename (''  AC: 12/'' @ [CHR 0x22] @ ''Test'' @ [CHR 0x22] @ '' '') = []
        \<or> (\<not> isspace (hd (sanitize_filename
                (''  AC: 12/'' @ [CHR 0x22] @ ''Test'' @ [CHR 0x22] @ '' '')))
          \<and> \<not> isspace (last (sanitize_filename
                (''  AC: 12/'' @ [CHR 0x22] @ ''Test'' @ [CHR 0x22] @ '' '')))))"
    using sanitize_filename_safe [of "''  AC: 12/'' @ [CHR 0x22] @ ''Test'' @ [CHR 0x22] @ '' ''"]
    by blast
  then have "set ''AC_ 12__Test_'' \<inter> set invalid_chars = {}
      \<and> \<not> isspace (hd ''AC_ 12__Test_'') \<and> \<not> isspace (last ''AC_ 12__Test_'')"
    unfolding v by simp
  with v show ?thesis by blast
qed



section \<open>Retrying and backing off (requests downloader)\<close>

lemma sent_simps [simp]:
  "sent [] = []" "sent (Sent rq # tr) = rq # sent tr" "sent (Slept t # tr) = sent tr"
  "sent (Mkdir p b # tr) = sent tr" "sent (Wrote p x # tr) = sent tr"
  "sent (xs @ ys) = sent xs @ sent ys"
  by (simp_all add: sent_def)

lemma sleeps_simps [simp]:
  "sleeps [] = []" "sleeps (Sent rq # tr) = sleeps tr" "sleeps (Slept t # tr) = t # sleeps tr"
  "sleeps (Mkdir p b # tr) = sleeps tr" "sleeps (Wrote p x # tr) = sleeps tr"
  "sleeps (xs @ ys) = sleeps xs @ sleeps ys"
  by (simp_all add: sleeps_def)

lemma get_page_from_fails:
  assumes "\<And>h. \<exists>e. session_get w u h = Inl e"
  shows "i < n \<Longrightarrow> \<exists>e evs. get_page_from w u n [i..<n] tr = (Inl e, tr @ evs)
           \<and> sent evs = replicate (n - i) (GET u)
           \<and> sleeps evs = map (\<lambda>j. 2 ^ j) [i..<n - 1]"
proof (induction "n - i" arbitrary: i tr)
  case 0
  then show ?case by simp
next
  case (Suc k)
  obtain e where e: "session_get w u tr = Inl e" using assms by blast
  have up: "[i..<n] = i # [Suc i..<n]" using Suc.prems by (simp add: upt_conv_Cons)
  show ?case
  proof (cases "i < n - 1")
    case True
    then have "k = n - Suc i" "Suc i < n" using Suc.hyps(2) by auto
    from Suc.hyps(1) [OF this, of "tr @ [Sent (GET u), Slept (2 ^ i)]"]
    obtain e' evs where r: "get_page_from w u n [Suc i..<n] (tr @ [Sent (GET u), Slept (2 ^ i)])
        = (Inl e', (tr @ [Sent (GET u), Slept (2 ^ i)]) @ evs)"
      and s: "sent evs = replicate (n - Suc i) (GET u)"
      and z: "sleeps evs = map (\<lambda>j. 2 ^ j) [Suc i..<n - 1]"
      by blast
    have "get_page_from w u n [i..<n] tr = (Inl e', tr @ ([Sent (GET u), Slept (2 ^ i)] @ evs))"
      unfolding up using e r True by simp
    moreover have "sent ([Sent (GET u), Slept (2 ^ i)] @ evs) = replicate (n - i) (GET u)"
      using s Suc.prems by (simp add: Suc_diff_Suc flip: replicate_Suc)
    moreover have "sleeps ([Sent (GET u), Slept (2 ^ i)] @ evs) = map (\<lambda>j. 2 ^ j) [i..<n - 1]"
      using z True by (simp add: upt_conv_Cons)
    ultimately show ?thesis by blast
  next
    case False
    then have ni: "n - i = 1" "[i..<n - 1] = []" using Suc.prems by auto
    have "get_page_from w u n [i..<n] tr = (Inl e, tr @ [Sent (GET u)])"
      unfolding up using e False by simp
    then show ?thesis using ni by (intro exI [of _ e] exI [of _ "[Sent (GET u)]"]) simp
  qed
qed

lemma try_endpoints_once:
  "\<exists>k\<le>length eps. snd (try_endpoints w data eps tr) = tr @ map (\<lambda>e. Sent (POST e data)) (take k eps)"
proof (induction eps arbitrary: tr)
  case Nil
  then show ?case by simp
next
  case (Cons a eps)
  obtain k where k: "k \<le> length eps"
    "snd (try_endpoints w data eps (tr @ [Sent (POST a data)]))
       = (tr @ [Sent (POST a data)]) @ map (\<lambda>e. Sent (POST e data)) (take k eps)"
    using Cons.IH by blast
  have more: "\<exists>k\<le>length (a # eps). snd (try_endpoints w data eps (tr @ [Sent (POST a data)]))
      = tr @ map (\<lambda>e. Sent (POST e data)) (take k (a # eps))"
    using k by (intro exI [of _ "Suc k"]) simp
  have stop: "\<exists>k\<le>length (a # eps). tr @ [Sent (POST a data)]
      = tr @ map (\<lambda>e. Sent (POST e data)) (take k (a # eps))"
    by (intro exI [of _ "Suc 0"]) simp
  show ?case
    using more stop by (auto split: sum.splits json_reply.splits)
qed


lemma range3: "[0..<3] = [0, 1, 2::nat]"
  by (simp add: eval_nat_numeral)

text \<open>
  C3, as the code has it. \<open>get_page\<close>, through which the district list and every file
  are fetched, retries: a page that fails twice and then succeeds is returned after exactly
  three requests, with waits of 1 and 2 in between; a page that always fails raises after
  exactly \<open>max_retries\<close> requests, with waits 1, 2, 4, ... between them. The constituency
  and part enumerations do not retry: they post to each candidate endpoint at most once,
  in order, and never wait.
\<close>

theorem get_page_retry:
  fixes w :: "'a http_world_scheme"
  shows
  "(session_get w u tr = Inl e1
      \<and> session_get w u (tr @ [Sent (GET u), Slept 1]) = Inl e2
      \<and> session_get w u (tr @ [Sent (GET u), Slept 1, Sent (GET u), Slept 2]) = Inr r
    \<longrightarrow> get_page w u 3 tr
          = (Inr (Some r), tr @ [Sent (GET u), Slept 1, Sent (GET u), Slept 2, Sent (GET u)]))
   \<and> (0 < n \<and> (\<forall>h. \<exists>e. session_get w u h = Inl e)
    \<longrightarrow> (\<exists>e evs. get_page w u n tr = (Inl e, tr @ evs)
           \<and> sent evs = replicate n (GET u)
           \<and> sleeps evs = map (\<lambda>j. 2 ^ j) [0..<n - 1]))
   \<and> (\<exists>k\<le>4. snd (get_constituencies w b d tr)
          = tr @ map (\<lambda>e. Sent (POST e [(''district'', Text d)]))
                 (take k [b @ ''/api/getAC'', b @ ''/api/getConstituencies'',
                          b @ ''/getAC.php'', b @ ''/getConstituency.php'']))
   \<and> (\<exists>k\<le>3. snd (get_parts w b d a tr)
          = tr @ map (\<lambda>e. Sent (POST e [(''district'', Text d), (''ac'', a)]))
                 (take k [b @ ''/api/getParts'', b @ ''/api/getPartNo'', b @ ''/getPart.php'']))"
proof -
  have third: "get_page w u 3 tr
      = (Inr (Some r), tr @ [Sent (GET u), Slept 1, Sent (GET u), Slept 2, Sent (GET u)])"
    if "session_get w u tr = Inl e1"
      and "session_get w u (tr @ [Sent (GET u), Slept 1]) = Inl e2"
      and "session_get w u (tr @ [Sent (GET u), Slept 1, Sent (GET u), Slept 2]) = Inr r"
    using that by (simp add: get_page_def range3)
  have never: "\<exists>e evs. get_page w u n tr = (Inl e, tr @ evs)
           \<and> sent evs = replicate n (GET u) \<and> sleeps evs = map (\<lambda>j. 2 ^ j) [0..<n - 1]"
    if "0 < n" and "\<forall>h. \<exists>e. session_get w u h = Inl e"
    using get_page_from_fails [of w u 0 n tr] that by (simp add: get_page_def)
  have acs: "\<exists>k\<le>4. snd (get_constituencies w b d tr)
          = tr @ map (\<lambda>e. Sent (POST e [(''district'', Text d)]))
                 (take k [b @ ''/api/getAC'', b @ ''/api/getConstituencies'',
                          b @ ''/getAC.php'', b @ ''/getConstituency.php''])"
    using try_endpoints_once [of "[b @ ''/api/getAC'', b @ ''/api/getConstituencies'',
                          b @ ''/getAC.php'', b @ ''/getConstituency.php'']" w "[(''district'', Text d)]" tr]
    unfolding get_constituencies_def by (simp del: try_endpoints.simps add: eval_nat_numeral)
  have ps: "\<exists>k\<le>3. snd (get_parts w b d a tr)
          = tr @ map (\<lambda>e. Sent (POST e [(''district'', Text d), (''ac'', a)]))
                 (take k [b @ ''/api/getParts'', b @ ''/api/getPartNo'', b @ ''/getPart.php''])"
    using try_endpoints_once [of "[b @ ''/api/getParts'', b @ ''/api/getPartNo'', b @ ''/getPart.php'']"
         w "[(''district'', Text d), (''ac'', a)]" tr]
    unfolding get_parts_def by (simp del: try_endpoints.simps add: eval_nat_numeral)
  from third never acs ps show ?thesis by blast
qed


lemma dead_world_fails: "session_get dead_world u h = Inl (HTTPError 404)"
  by (simp add: dead_world_def stub_world_def session_get_def flaky_def raise_for_status_def)

theorem get_page_retry_witness:
  "get_page recovering_world ''u'' 3 []
     = (Inr (Some (ok_response ''page'')),
        [Sent (GET ''u''), Slept 1, Sent (GET ''u''), Slept 2, Sent (GET ''u'')])
   \<and> (\<exists>e evs. get_page dead_world ''u'' 3 [] = (Inl e, evs)
         \<and> sent evs = [GET ''u'', GET ''u'', GET ''u''] \<and> sleeps evs = [1, 2])"
proof -
  have a: "session_get recovering_world ''u'' [] = Inl RequestException"
    by (simp add: recovering_world_def stub_world_def session_get_def flaky_def)
  have b: "session_get recovering_world ''u'' ([] @ [Sent (GET ''u''), Slept 1]) = Inl RequestException"
    by (simp add: recovering_world_def stub_world_def session_get_def flaky_def)
  have c: "session_get recovering_world ''u'' ([] @ [Sent (GET ''u''), Slept 1, Sent (GET ''u''), Slept 2])
      = Inr (ok_response ''page'')"
    by (simp add: recovering_world_def stub_world_def session_get_def flaky_def raise_for_status_def ok_response_def)
  have first: "get_page recovering_world ''u'' 3 []
     = (Inr (Some (ok_response ''page'')),
        [Sent (GET ''u''), Slept 1, Sent (GET ''u''), Slept 2, Sent (GET ''u'')])"
    using get_page_retry [of recovering_world "''u''" "[]" RequestException RequestException "ok_response ''page''"]
      a b c by simp
  have "\<exists>e evs. get_page dead_world ''u'' 3 [] = (Inl e, [] @ evs)
           \<and> sent evs = replicate 3 (GET ''u'')
           \<and> sleeps evs = map (\<lambda>j. 2 ^ j) [0..<3 - 1]"
    using get_page_retry [of dead_world "''u''" "[]" RequestException RequestException
        "ok_response ''page''" 3 "''b''" "''d''" "Text ''a''", THEN conjunct2, THEN conjunct1]
      dead_world_fails by simp
  then have second: "\<exists>e evs. get_page dead_world ''u'' 3 [] = (Inl e, evs)
         \<and> sent evs = [GET ''u'', GET ''u'', GET ''u''] \<and> sleeps evs = [1, 2]"
    by (simp add: eval_nat_numeral)
  from first second show ?thesis by blast
qed



text \<open>
  C3 as stated fails for the constituency enumeration: against a portal whose requests
  fail twice and succeed the third time, \<open>get_constituencies\<close> gives up with the empty
  list after one request per endpoint.
\<close>

theorem get_constituencies_no_retry:
  "get_constituencies flaky_portal ''B'' ''1'' []
     = ([], [Sent (POST ''B/api/getAC'' [(''district'', Text ''1'')]),
             Sent (POST ''B/api/getConstituencies'' [(''district'', Text ''1'')]),
             Sent (POST ''B/getAC.php'' [(''district'', Text ''1'')]),
             Sent (POST ''B/getConstituency.php'' [(''district'', Text ''1'')])])
   \<and> http flaky_portal [Sent (POST ''B/api/getAC'' [(''district'', Text ''1'')]),
               Sent (POST ''B/api/getAC'' [(''district'', Text ''1'')])]
         (POST ''B/api/getAC'' [(''district'', Text ''1'')]) = Inr (ok_response ''acs'')
   \<and> json flaky_portal ''acs'' = Json_list [Object [(''name'', Text ''AC One''), (''value'', Text ''7'')]]"
  by (simp add: get_constituencies_def flaky_portal_def stub_world_def flaky_def sent_def)

section \<open>Downloading one file (requests downloader)\<close>

lemma fs_events_simps [simp]:
  "fs_events [] = []" "fs_events (Sent rq # tr) = fs_events tr" "fs_events (Slept t # tr) = fs_events tr"
  "fs_events (Mkdir p b # tr) = Mkdir p b # fs_events tr" "fs_events (Wrote p x # tr) = Wrote p x # fs_events tr"
  "fs_events (xs @ ys) = fs_events xs @ fs_events ys"
  by (simp_all add: fs_events_def)

lemma written_simps [simp]:
  "written q [] = []" "written q (Sent rq # tr) = written q tr" "written q (Slept t # tr) = written q tr"
  "written q (Mkdir p b # tr) = written q tr"
  "written q (Wrote p x # tr) = (if p = q then x # written q tr else written q tr)"
  "written q (xs @ ys) = written q xs @ written q ys"
  by (simp_all add: written_def)

lemma get_page_from_quiet:
  "fs_events (snd (get_page_from w u n as tr)) = fs_events tr
   \<and> written p (snd (get_page_from w u n as tr)) = written p tr"
  by (induction as arbitrary: tr) (auto split: sum.splits)

lemma get_page_quiet:
  "get_page w u n tr = (r, tr') \<Longrightarrow> fs_events tr' = fs_events tr \<and> written p tr' = written p tr"
  using get_page_from_quiet [of w u n "[0..<n]" tr p] by (simp add: get_page_def)

text \<open>
  C10. When fetching the page fails, \<open>download_file\<close> returns \<open>False\<close> and has no effect
  on the file system, so the destination is neither created nor modified. The destination
  is written only after a successful fetch, with the content fetched, and then
  \<open>download_file\<close> returns \<open>True\<close>; whenever it returns \<open>True\<close> the content fetched was
  written to the destination.
\<close>

theorem download_file_atomic:
  fixes w :: "'a http_world_scheme"
  shows
  "(fst (get_page w u 3 tr) = Inl e
      \<longrightarrow> fst (download_file w u p tr) = False
          \<and> snd (download_file w u p tr) = snd (get_page w u 3 tr)
          \<and> fs_events (snd (download_file w u p tr)) = fs_events tr
          \<and> written p (snd (download_file w u p tr)) = written p tr)
   \<and> (written p (snd (download_file w u p tr)) \<noteq> written p tr
      \<longrightarrow> (\<exists>r tr1. get_page w u 3 tr = (Inr (Some r), tr1)
             \<and> fst (download_file w u p tr) = True
             \<and> written p (snd (download_file w u p tr)) = written p tr @ [content r]))
   \<and> (fst (download_file w u p tr) = True
      \<longrightarrow> (\<exists>r tr1. get_page w u 3 tr = (Inr (Some r), tr1)
             \<and> snd (download_file w u p tr) = tr1 @ [Mkdir (Parent p) True, Wrote p (content r)]))"
proof -
  obtain g tr1 where g: "get_page w u 3 tr = (g, tr1)" by (cases "get_page w u 3 tr")
  note q = get_page_quiet [OF g]
  have failure: "fst (download_file w u p tr) = False
          \<and> snd (download_file w u p tr) = snd (get_page w u 3 tr)
          \<and> fs_events (snd (download_file w u p tr)) = fs_events tr
          \<and> written p (snd (download_file w u p tr)) = written p tr"
    if "fst (get_page w u 3 tr) = Inl e"
    using that g q by (simp add: download_file_def)
  have changed: "\<exists>r tr1. get_page w u 3 tr = (Inr (Some r), tr1)
             \<and> fst (download_file w u p tr) = True
             \<and> written p (snd (download_file w u p tr)) = written p tr @ [content r]"
    if "written p (snd (download_file w u p tr)) \<noteq> written p tr"
    using that g q [of p]
    by (auto simp: download_file_def do_mkdir_def do_write_def split: sum.splits option.splits)
  have success: "\<exists>r tr1. get_page w u 3 tr = (Inr (Some r), tr1)
             \<and> snd (download_file w u p tr) = tr1 @ [Mkdir (Parent p) True, Wrote p (content r)]"
    if "fst (download_file w u p tr) = True"
    using that g
    by (auto simp: download_file_def do_mkdir_def do_write_def split: sum.splits option.splits)
  from failure changed success show ?thesis by blast
qed



lemmas run_defs =
  download_all_def get_districts_def get_page_def range3 session_get_def raise_for_status_def
  scrape_direct_links_def download_link_def download_file_def do_mkdir_def do_write_def
  count_download_def wanted_link_def
  stub_world_def flaky_def ok_response_def sent_def zero_stats_def
  sanitize_filename_def strip_def replace_def invalid_chars_def isspace_def
  lower_def lower_char_def endswith_def basename_def Let_def

theorem download_file_atomic_witness:
  "fst (get_page small_portal ''B/asd_download.php?district=2&ac=7&part=2'' 3 []) = Inl (HTTPError 404)
   \<and> fst (download_file small_portal ''B/asd_download.php?district=2&ac=7&part=2''
            (Join (Path ''out'') ''ASDD_Part_2.pdf'') []) = False
   \<and> fs_events (snd (download_file small_portal ''B/asd_download.php?district=2&ac=7&part=2''
            (Join (Path ''out'') ''ASDD_Part_2.pdf'') [])) = []
   \<and> download_file small_portal ''B/asd_download.php?district=2&ac=7&part=1''
            (Join (Path ''out'') ''ASDD_Part_1.pdf'') []
       = (True, [Sent (GET ''B/asd_download.php?district=2&ac=7&part=1''),
                 Mkdir (Parent (Join (Path ''out'') ''ASDD_Part_1.pdf'')) True,
                 Wrote (Join (Path ''out'') ''ASDD_Part_1.pdf'') ''%PDF-1''])"
proof -
  have fails: "fst (get_page small_portal ''B/asd_download.php?district=2&ac=7&part=2'' 3 [])
      = Inl (HTTPError 404)"
    by (simp add: small_portal_def run_defs)
  have good: "fst (download_file small_portal ''B/asd_download.php?district=2&ac=7&part=1''
            (Join (Path ''out'') ''ASDD_Part_1.pdf'') []) = True"
    by (simp add: small_portal_def run_defs)
  have page: "get_page small_portal ''B/asd_download.php?district=2&ac=7&part=1'' 3 []
      = (Inr (Some (ok_response ''%PDF-1'')), [Sent (GET ''B/asd_download.php?district=2&ac=7&part=1'')])"
    by (simp add: small_portal_def run_defs)
  note a = download_file_atomic [of small_portal "''B/asd_download.php?district=2&ac=7&part=2''" "[]"
      "HTTPError 404" "Join (Path ''out'') ''ASDD_Part_2.pdf''", THEN conjunct1, rule_format, OF fails]
  note b = download_file_atomic [of small_portal "''B/asd_download.php?district=2&ac=7&part=1''" "[]"
      "HTTPError 404" "Join (Path ''out'') ''ASDD_Part_1.pdf''",
      THEN conjunct2, THEN conjunct2, rule_format, OF good]
  from b page have "snd (download_file small_portal ''B/asd_download.php?district=2&ac=7&part=1''
            (Join (Path ''out'') ''ASDD_Part_1.pdf'') [])
       = [Sent (GET ''B/asd_download.php?district=2&ac=7&part=1''),
                 Mkdir (Parent (Join (Path ''out'') ''ASDD_Part_1.pdf'')) True,
                 Wrote (Join (Path ''out'') ''ASDD_Part_1.pdf'') ''%PDF-1'']"
    by (auto simp: ok_response_def)
  with good have "download_file small_portal ''B/asd_download.php?district=2&ac=7&part=1''
            (Join (Path ''out'') ''ASDD_Part_1.pdf'') []
       = (True, [Sent (GET ''B/asd_download.php?district=2&ac=7&part=1''),
                 Mkdir (Parent (Join (Path ''out'') ''ASDD_Part_1.pdf'')) True,
                 Wrote (Join (Path ''out'') ''ASDD_Part_1.pdf'') ''%PDF-1''])"
    by (simp add: prod_eq_iff)
  moreover have "fst (download_file small_portal ''B/asd_download.php?district=2&ac=7&part=2''
            (Join (Path ''out'') ''ASDD_Part_2.pdf'') []) = False"
    using a by (rule conjunct1)
  moreover have "fs_events (snd (download_file small_portal ''B/asd_download.php?district=2&ac=7&part=2''
            (Join (Path ''out'') ''ASDD_Part_2.pdf'') [])) = []"
    using a [THEN conjunct2, THEN conjunct2, THEN conjunct1] by simp
  ultimately show ?thesis using fails by blast
qed


section \<open>An empty district list (requests downloader)\<close>

lemma count_download_keeps [simp]:
  "districts (count_download b st) = districts st"
  "constituencies (count_download b st) = constituencies st"
  "parts (count_download b st) = parts st"
  by (simp_all add: count_download_def)

lemma download_link_keeps:
  "districts (stats (download_link w l s)) = districts (stats s)
   \<and> constituencies (stats (download_link w l s)) = constituencies (stats s)
   \<and> parts (stats (download_link w l s)) = parts (stats s)"
  by (simp add: download_link_def Let_def split: prod.splits)

lemma fold_download_link_keeps:
  "districts (stats (fold (download_link w) ls s)) = districts (stats s)
   \<and> constituencies (stats (fold (download_link w) ls s)) = constituencies (stats s)
   \<and> parts (stats (fold (download_link w) ls s)) = parts (stats s)"
  by (induction ls arbitrary: s) (simp_all add: download_link_keeps)

lemma scrape_direct_links_keeps:
  "districts (stats (scrape_direct_links w s)) = districts (stats s)
   \<and> constituencies (stats (scrape_direct_links w s)) = constituencies (stats s)
   \<and> parts (stats (scrape_direct_links w s)) = parts (stats s)"
  by (simp add: scrape_direct_links_def fold_download_link_keeps
        split: prod.splits sum.splits option.splits)

text \<open>
  C4, as the code has it. When \<open>get_districts\<close> yields the empty list, \<open>download_all\<close>
  does not raise: it runs the direct-link fallback \<open>scrape_direct_links\<close> and returns to
  its caller. The hierarchy is not walked: the counters of districts, constituencies and
  parts stay as they were.
\<close>

theorem download_all_empty_discovery:
  fixes w :: "'a http_world_scheme"
  shows
  "fst (get_districts w (asd_url s) (trace s)) = []
   \<longrightarrow> download_all w s
         = (None, scrape_direct_links w (s\<lparr>trace := snd (get_districts w (asd_url s) (trace s))\<rparr>))
       \<and> districts (stats (snd (download_all w s))) = districts (stats s)
       \<and> constituencies (stats (snd (download_all w s))) = constituencies (stats s)
       \<and> parts (stats (snd (download_all w s))) = parts (stats s)"
proof
  assume empty: "fst (get_districts w (asd_url s) (trace s)) = []"
  then have run: "download_all w s
      = (None, scrape_direct_links w (s\<lparr>trace := snd (get_districts w (asd_url s) (trace s))\<rparr>))"
    by (cases "get_districts w (asd_url s) (trace s)") (simp add: download_all_def)
  show "download_all w s
         = (None, scrape_direct_links w (s\<lparr>trace := snd (get_districts w (asd_url s) (trace s))\<rparr>))
       \<and> districts (stats (snd (download_all w s))) = districts (stats s)
       \<and> constituencies (stats (snd (download_all w s))) = constituencies (stats s)
       \<and> parts (stats (snd (download_all w s))) = parts (stats s)"
    unfolding run by (simp add: scrape_direct_links_keeps)
qed

text \<open>
  C4 as stated fails: on a portal whose main page has no district dropdown and one PDF
  link, the district list is empty and \<open>download_all\<close> returns normally, having saved the
  page and downloaded the linked file.
\<close>

theorem empty_discovery_not_fatal:
  "new_downloader plain_portal ''B'' ''out'' [] = Inr fresh_downloader
   \<and> fst (get_districts plain_portal (asd_url fresh_downloader) (trace fresh_downloader)) = []
   \<and> download_all plain_portal fresh_downloader
       = (None,
          fresh_downloader
            \<lparr>stats := zero_stats\<lparr>downloaded := 1\<rparr>,
             trace := [Mkdir (Path ''out'') False,
                       Sent (GET ''B/asd_sir''),
                       Sent (GET ''B/asd_sir''),
                       Wrote (Join (Path ''out'') ''page_source.html'') ''plain'',
                       Sent (GET ''http://portal/files/list.pdf''),
                       Mkdir (Parent (Join (Path ''out'') ''Roll 1.pdf'')) True,
                       Wrote (Join (Path ''out'') ''Roll 1.pdf'') ''%PDF'',
                       Slept 0.5]\<rparr>)"
  by (simp add: new_downloader_def fresh_downloader_def plain_portal_def run_defs)


theorem download_all_empty_discovery_witness:
  "fst (get_districts dead_world (asd_url fresh_downloader) (trace fresh_downloader)) = []
   \<and> fst (download_all dead_world fresh_downloader) = None
   \<and> stats (snd (download_all dead_world fresh_downloader)) = zero_stats
   \<and> sent (trace (snd (download_all dead_world fresh_downloader))) = replicate 6 (GET ''B/asd_sir'')
   \<and> fs_events (trace (snd (download_all dead_world fresh_downloader))) = [Mkdir (Path ''out'') False]"
proof -
  have empty: "fst (get_districts dead_world (asd_url fresh_downloader) (trace fresh_downloader)) = []"
    by (simp add: fresh_downloader_def dead_world_def run_defs)
  have run: "download_all dead_world fresh_downloader
      = (None, scrape_direct_links dead_world
           (fresh_downloader\<lparr>trace :=
              snd (get_districts dead_world (asd_url fresh_downloader) (trace fresh_downloader))\<rparr>))"
    using download_all_empty_discovery [of dead_world fresh_downloader] empty by blast
  have "scrape_direct_links dead_world
           (fresh_downloader\<lparr>trace :=
              snd (get_districts dead_world (asd_url fresh_downloader) (trace fresh_downloader))\<rparr>)
      = fresh_downloader\<lparr>trace := [Mkdir (Path ''out'') False,
            Sent (GET ''B/asd_sir''), Slept 1, Sent (GET ''B/asd_sir''), Slept 2, Sent (GET ''B/asd_sir''),
            Sent (GET ''B/asd_sir''), Slept 1, Sent (GET ''B/asd_sir''), Slept 2, Sent (GET ''B/asd_sir'')]\<rparr>"
    by (simp add: fresh_downloader_def dead_world_def run_defs)
  with run empty show ?thesis
    by (simp add: fresh_downloader_def eval_nat_numeral)
qed




section \<open>The flattened loops are the loops\<close>

lemma obs_Cons:
  "sent (ev # tr) = (case ev of Sent rq \<Rightarrow> [rq] | _ \<Rightarrow> []) @ sent tr"
  "sleeps (ev # tr) = (case ev of Slept t \<Rightarrow> [t] | _ \<Rightarrow> []) @ sleeps tr"
  "written q (ev # tr) = (case ev of Wrote q' x \<Rightarrow> if q' = q then [x] else [] | _ \<Rightarrow> []) @ written q tr"
  "fetches (ev # tr) = (case ev of Fetched c b \<Rightarrow> [(c, b)] | _ \<Rightarrow> []) @ fetches tr"
  by (simp_all add: sent_def sleeps_def written_def fetches_def)

lemma fetches_simps [simp]:
  "fetches [] = []" "fetches (xs @ ys) = fetches xs @ fetches ys"
  by (simp_all add: fetches_def)

lemma run_actions_append:
  "run_actions w (xs @ ys) s =
     (case run_actions w xs s of (Some e, s') \<Rightarrow> (Some e, s') | (None, s') \<Rightarrow> run_actions w ys s')"
  by (induction xs arbitrary: s) (auto split: prod.splits option.splits)

lemma process_part_skip:
  "ledger_key dn an (name p) \<in> set (completed (progress s)) \<Longrightarrow> process_part w dn an p s = (None, s)"
  by (simp add: process_part_def)

lemma process_part_fetch:
  fixes w :: "'a browser_world_scheme" and s :: selenium_downloader and dn an :: string and p :: entry
  assumes "ledger_key dn an (name p) \<notin> set (completed (progress s))"
  defines "c \<equiv> (dn, an, entry_value p, name p)"
  defines "b \<equiv> part_downloaded w (trace s) c"
  defines "s2 \<equiv> s\<lparr>stats := count_download b (stats s), trace := trace s @ [Fetched c b],
                   progress := mark b (ledger_key dn an (name p)) (progress s)\<rparr>"
  shows "process_part w dn an p s =
     (case write_file w (trace s2) (progress_file s) (json_dump w (progress s2)) of
        Some e \<Rightarrow> (Some e, s2)
      | None \<Rightarrow> (None, s2\<lparr>trace := trace s2 @ [Wrote (progress_file s) (json_dump w (progress s2)), Slept 1]\<rparr>))"
  using assms(1) unfolding c_def b_def s2_def
  by (simp add: process_part_def download_part_data_def save_progress_def do_write_def Let_def
      split: option.splits)

lemma process_part_frame:
  "process_part w dn an p s = (r, s') \<Longrightarrow>
     output_dir s' = output_dir s \<and> url s' = url s \<and> progress_file s' = progress_file s"
  by (cases "ledger_key dn an (name p) \<in> set (completed (progress s))")
     (auto simp: process_part_skip process_part_fetch split: option.splits)

lemma do_action_frame:
  "do_action w a s = (r, s') \<Longrightarrow>
     output_dir s' = output_dir s \<and> url s' = url s \<and> progress_file s' = progress_file s"
  by (cases a) (auto simp: do_action_def do_mkdir_def dest: process_part_frame split: option.splits)

lemma run_actions_frame:
  "run_actions w as s = (r, s') \<Longrightarrow>
     output_dir s' = output_dir s \<and> url s' = url s \<and> progress_file s' = progress_file s"
proof (induction as arbitrary: s)
  case Nil
  then show ?case by simp
next
  case (Cons a as)
  obtain r1 s1 where a: "do_action w a s = (r1, s1)" by (cases "do_action w a s")
  note f = do_action_frame [OF a]
  show ?case
  proof (cases r1)
    case None
    with Cons.prems a have "run_actions w as s1 = (r, s')" by simp
    from Cons.IH [OF this] f show ?thesis by simp
  next
    case (Some e)
    with Cons.prems a f show ?thesis by simp
  qed
qed

lemma part_loop_flat:
  "part_loop w (name d) (name ac) ps s = run_actions w (map (Leaf d ac) ps) s"
  by (induction ps arbitrary: s) (auto simp: do_action_def split: prod.splits option.splits)

lemma process_ac_flat:
  "process_ac_sel w (name d) (district_dir_of s d) ac s = run_actions w (ac_schedule w d ac) s"
proof (cases "do_mkdir w (Join (district_dir_of s d) (sanitize_filename (name ac))) False (trace s)")
  case (Inl e)
  then show ?thesis
    by (simp add: process_ac_sel_def ac_schedule_def do_action_def)
next
  case (Inr tr1)
  define s1 where "s1 = s\<lparr>stats := (stats s)\<lparr>parts := parts (stats s)
      + int (length (get_parts_sel w (entry_value ac)))\<rparr>, trace := tr1\<rparr>"
  obtain r2 s2 where l: "run_actions w (map (Leaf d ac) (get_parts_sel w (entry_value ac))) s1 = (r2, s2)"
    by (cases "run_actions w (map (Leaf d ac) (get_parts_sel w (entry_value ac))) s1")
  have lhs: "process_ac_sel w (name d) (district_dir_of s d) ac s =
      (case r2 of Some e \<Rightarrow> (Some e, s2)
       | None \<Rightarrow> (case load_page w (trace s2) (url s2) of
                     Some e \<Rightarrow> (Some e, s2)
                   | None \<Rightarrow> (None, s2\<lparr>trace := trace s2 @ [Page_loaded (url s2), Slept 2]\<rparr>)))"
    using Inr l by (simp add: process_ac_sel_def part_loop_flat s1_def Let_def split: option.splits)
  have rhs: "run_actions w (ac_schedule w d ac) s =
      (case r2 of Some e \<Rightarrow> (Some e, s2)
       | None \<Rightarrow> (case load_page w (trace s2) (url s2) of
                     Some e \<Rightarrow> (Some e, s2)
                   | None \<Rightarrow> (None, s2\<lparr>trace := trace s2 @ [Page_loaded (url s2), Slept 2]\<rparr>)))"
    using Inr l
    by (simp add: ac_schedule_def run_actions_append do_action_def s1_def split: option.splits)
  show ?thesis unfolding lhs rhs ..
qed

lemma ac_loop_flat:
  "ac_loop_sel w (name d) (district_dir_of s d) acs s = run_actions w (concat (map (ac_schedule w d) acs)) s"
proof (induction acs arbitrary: s)
  case Nil
  then show ?case by simp
next
  case (Cons ac acs)
  obtain r1 s1 where a: "run_actions w (ac_schedule w d ac) s = (r1, s1)"
    by (cases "run_actions w (ac_schedule w d ac) s")
  have dir: "district_dir_of s1 d = district_dir_of s d"
    using run_actions_frame [OF a] by (simp add: district_dir_of_def)
  show ?case
    using a Cons.IH [of s1] dir
    by (simp add: process_ac_flat run_actions_append split: option.splits)
qed

lemma process_district_flat:
  "process_district_sel w d s = run_actions w (district_schedule w d) s"
proof (cases "do_mkdir w (district_dir_of s d) False (trace s)")
  case (Inl e)
  then show ?thesis
    by (simp add: process_district_sel_def district_schedule_def do_action_def district_dir_of_def)
next
  case (Inr tr1)
  define s1 where "s1 = s\<lparr>stats := (stats s)\<lparr>constituencies := constituencies (stats s)
      + int (length (get_constituencies_sel w (entry_value d)))\<rparr>, trace := tr1\<rparr>"
  have dir: "district_dir_of s1 d = district_dir_of s d"
    by (simp add: district_dir_of_def s1_def)
  have "process_district_sel w d s
      = ac_loop_sel w (name d) (district_dir_of s1 d) (get_constituencies_sel w (entry_value d)) s1"
    using Inr unfolding dir by (simp add: process_district_sel_def district_dir_of_def s1_def Let_def)
  also have "\<dots> = run_actions w (concat (map (ac_schedule w d) (get_constituencies_sel w (entry_value d)))) s1"
    by (rule ac_loop_flat)
  also have "\<dots> = run_actions w (district_schedule w d) s"
    using Inr by (simp add: district_schedule_def do_action_def s1_def)
  finally show ?thesis .
qed

lemma district_loop_sel_flat:
  "district_loop_sel w ds s = run_actions w (schedule w ds) s"
  by (induction ds arbitrary: s)
     (auto simp: schedule_def process_district_flat run_actions_append split: prod.splits option.splits)

lemma keys_of_simps [simp]:
  "keys_of [] = []" "keys_of (xs @ ys) = keys_of xs @ keys_of ys"
  "keys_of (Leaf d ac p # xs) = ledger_key (name d) (name ac) (name p) # keys_of xs"
  "keys_of (Enter_district d # xs) = keys_of xs" "keys_of (Enter_ac d ac # xs) = keys_of xs"
  "keys_of (Leave_ac # xs) = keys_of xs"
  by (simp_all add: keys_of_def)

lemma keys_of_leaves: "keys_of (map (Leaf d ac) ps) = map (\<lambda>p. ledger_key (name d) (name ac) (name p)) ps"
  by (induction ps) simp_all

lemma keys_of_district:
  "keys_of (concat (map (ac_schedule w d) acs))
     = concat (map (\<lambda>ac. map (\<lambda>p. ledger_key (name d) (name ac) (name p)) (get_parts_sel w (entry_value ac))) acs)"
  by (induction acs) (simp_all add: ac_schedule_def keys_of_leaves)

lemma keys_of_schedule: "keys_of (schedule w ds) = enumerated_keys w ds"
  by (induction ds) (simp_all add: schedule_def enumerated_keys_def district_schedule_def keys_of_district)

lemma download_all_sel_flat:
  "download_all_sel w td s =
     (case setup_driver w s of
        (Some e, s1) \<Rightarrow> (Some e, print_stats (close_driver s1))
      | (None, s1) \<Rightarrow>
          (case run_actions w (schedule w (districts_of_run w td)) (snd (get_districts_sel w s1)) of
             (r, s') \<Rightarrow> (r, print_stats (close_driver s'))))"
  by (simp add: download_all_sel_def download_all_body_def district_loop_sel_flat districts_of_run_def
        get_districts_sel_def split: prod.splits option.splits)


section \<open>A rule for the whole run\<close>

lemma quiet_step_refl: "quiet_step s s"
  by (simp add: quiet_step_def)

lemma quiet_step_trans: "quiet_step a b \<Longrightarrow> quiet_step b c \<Longrightarrow> quiet_step a c"
  unfolding quiet_step_def by (elim conjE exE) (simp add: obs_Cons)

lemma quiet_stepI:
  "progress s' = progress s \<Longrightarrow> progress_file s' = progress_file s \<Longrightarrow> url s' = url s
   \<Longrightarrow> output_dir s' = output_dir s \<Longrightarrow> downloaded (stats s') = downloaded (stats s)
   \<Longrightarrow> stats.failed (stats s') = stats.failed (stats s)
   \<Longrightarrow> trace s' = trace s @ evs \<Longrightarrow> fetches evs = [] \<Longrightarrow> (\<And>p. written p evs = [])
   \<Longrightarrow> quiet_step s s'"
  unfolding quiet_step_def by blast

lemma do_action_quiet:
  assumes "\<And>d ac p. a \<noteq> Leaf d ac p" and "do_action w a s = (r, s')"
  shows "quiet_step s s'"
proof (cases a)
  case (Enter_district d)
  with assms(2) show ?thesis
    by (auto simp: do_action_def do_mkdir_def obs_Cons quiet_step_refl split: option.splits
        intro!: quiet_stepI [where evs = "[Mkdir (district_dir_of s d) False]"])
next
  case (Enter_ac d ac)
  with assms(2) show ?thesis
    by (auto simp: do_action_def do_mkdir_def obs_Cons quiet_step_refl split: option.splits
        intro!: quiet_stepI [where evs = "[Mkdir (Join (district_dir_of s d) (sanitize_filename (name ac))) False]"])
next
  case (Leaf d ac p)
  with assms(1) show ?thesis by blast
next
  case Leave_ac
  with assms(2) show ?thesis
    by (auto simp: do_action_def obs_Cons quiet_step_refl split: option.splits
        intro!: quiet_stepI [where evs = "[Page_loaded (url s), Slept 2]"])
qed

lemma leaf_key_mem:
  "Leaf d ac p \<in> set as \<Longrightarrow> ledger_key (name d) (name ac) (name p) \<in> set (keys_of as)"
  by (induction as) (auto simp: keys_of_def)

lemma run_actions_rel:
  assumes refl: "\<And>s. R s s"
    and RR: "\<And>a b c. R a b \<Longrightarrow> R b c \<Longrightarrow> R a c"
    and RA: "\<And>a b c. R a b \<Longrightarrow> A b c \<Longrightarrow> A a c"
    and R_A: "\<And>a b. R a b \<Longrightarrow> A a b"
    and quiet: "\<And>s s'. quiet_step s s' \<Longrightarrow> R s s'"
    and leaf: "\<And>(d::entry) (ac::entry) (p::entry) s s'. ledger_key (name d) (name ac) (name p) \<in> K
        \<Longrightarrow> process_part w (name d) (name ac) p s = (None, s') \<Longrightarrow> R s s'"
    and leaf_fail: "\<And>(d::entry) (ac::entry) (p::entry) s s' e. ledger_key (name d) (name ac) (name p) \<in> K
        \<Longrightarrow> process_part w (name d) (name ac) p s = (Some e, s') \<Longrightarrow> A s s'"
  shows "set (keys_of as) \<subseteq> K \<Longrightarrow> run_actions w as s = (r, s') \<Longrightarrow> A s s' \<and> (r = None \<longrightarrow> R s s')"
proof (induction as arbitrary: s)
  case Nil
  then show ?case using refl R_A by auto
next
  case (Cons a as)
  obtain r1 s1 where a: "do_action w a s = (r1, s1)" by (cases "do_action w a s")
  have sub: "set (keys_of as) \<subseteq> K" using Cons.prems(1) by (auto simp: keys_of_def)
  have step: "(r1 = None \<longrightarrow> R s s1) \<and> A s s1"
  proof (cases "\<exists>d ac p. a = Leaf d ac p")
    case True
    then obtain d ac p where l: "a = Leaf d ac p" by blast
    then have k: "ledger_key (name d) (name ac) (name p) \<in> K"
      using Cons.prems(1) by simp
    from a l have pp: "process_part w (name d) (name ac) p s = (r1, s1)"
      by (simp add: do_action_def)
    show ?thesis
    proof (cases r1)
      case None
      with pp leaf [OF k] have "R s s1" by blast
      with None R_A show ?thesis by blast
    next
      case (Some e)
      with pp leaf_fail [OF k] show ?thesis by blast
    qed
  next
    case False
    then have "quiet_step s s1" using do_action_quiet [OF _ a] by blast
    then have "R s s1" by (rule quiet)
    then show ?thesis using R_A by blast
  qed
  show ?case
  proof (cases r1)
    case None
    with Cons.prems(2) a have rest: "run_actions w as s1 = (r, s')" by simp
    from Cons.IH [OF sub rest] step None show ?thesis
      using RR RA by blast
  next
    case (Some e)
    with Cons.prems(2) a have "r = Some e" "s' = s1" by simp_all
    with step show ?thesis by simp
  qed
qed

lemma setup_driver_quiet: "setup_driver w s = (r, s') \<Longrightarrow> quiet_step s s'"
  by (auto simp: setup_driver_def obs_Cons quiet_step_refl split: setup_outcome.splits
      intro!: quiet_stepI [where evs = "[Driver_started]"])

lemma get_districts_sel_quiet: "quiet_step s (snd (get_districts_sel w s))"
  by (auto simp: get_districts_sel_def quiet_step_refl split: option.splits
      intro!: quiet_stepI [where evs = "[]"])

lemma finally_quiet: "quiet_step s (print_stats (close_driver s))"
proof (cases "driver s")
  case True
  then show ?thesis
    by (auto simp: print_stats_def close_driver_def obs_Cons
        intro!: quiet_stepI [where evs = "[Driver_closed, Stats_printed (stats s)]"])
next
  case False
  then show ?thesis
    by (auto simp: print_stats_def close_driver_def obs_Cons
        intro!: quiet_stepI [where evs = "[Stats_printed (stats s)]"])
qed

lemma download_all_sel_rel:
  assumes refl: "\<And>s. R s s"
    and RR: "\<And>a b c. R a b \<Longrightarrow> R b c \<Longrightarrow> R a c"
    and RA: "\<And>a b c. R a b \<Longrightarrow> A b c \<Longrightarrow> A a c"
    and R_A: "\<And>a b. R a b \<Longrightarrow> A a b"
    and AQ: "\<And>a b c. A a b \<Longrightarrow> quiet_step b c \<Longrightarrow> A a c"
    and quiet: "\<And>s s'. quiet_step s s' \<Longrightarrow> R s s'"
    and leaf: "\<And>(d::entry) (ac::entry) (p::entry) s s'.
        ledger_key (name d) (name ac) (name p) \<in> set (enumerated_keys w (districts_of_run w td))
        \<Longrightarrow> process_part w (name d) (name ac) p s = (None, s') \<Longrightarrow> R s s'"
    and leaf_fail: "\<And>(d::entry) (ac::entry) (p::entry) s s' e.
        ledger_key (name d) (name ac) (name p) \<in> set (enumerated_keys w (districts_of_run w td))
        \<Longrightarrow> process_part w (name d) (name ac) p s = (Some e, s') \<Longrightarrow> A s s'"
    and run: "download_all_sel w td s = (r, s')"
  shows "A s s' \<and> (r = None \<longrightarrow> R s s')"
proof -
  obtain r1 s1 where su: "setup_driver w s = (r1, s1)" by (cases "setup_driver w s")
  have q1: "quiet_step s s1" using su by (rule setup_driver_quiet)
  show ?thesis
  proof (cases r1)
    case (Some e)
    with run su have "r = Some e" "s' = print_stats (close_driver s1)"
      by (simp_all add: download_all_sel_flat)
    moreover have "quiet_step s (print_stats (close_driver s1))"
      using q1 finally_quiet by (rule quiet_step_trans)
    ultimately show ?thesis using quiet R_A by simp
  next
    case None
    define s2 where "s2 = snd (get_districts_sel w s1)"
    obtain r3 s3 where ra: "run_actions w (schedule w (districts_of_run w td)) s2 = (r3, s3)"
      by (cases "run_actions w (schedule w (districts_of_run w td)) s2")
    from run su None ra have res: "r = r3" "s' = print_stats (close_driver s3)"
      by (simp_all add: download_all_sel_flat s2_def)
    have q2: "quiet_step s s2"
      using q1 get_districts_sel_quiet unfolding s2_def by (rule quiet_step_trans)
    have mid: "A s2 s3 \<and> (r3 = None \<longrightarrow> R s2 s3)"
      by (rule run_actions_rel [where R = R and A = A and K = "set (enumerated_keys w (districts_of_run w td))",
            OF refl RR RA R_A quiet leaf leaf_fail _ ra])
         (simp_all add: keys_of_schedule)
    have "A s s3" using quiet [OF q2] mid RA by blast
    then have a: "A s s'" unfolding res using finally_quiet by (rule AQ)
    have "R s s'" if "r3 = None"
    proof -
      from that mid have "R s2 s3" by blast
      with quiet [OF q2] have "R s s3" by (rule RR)
      then show ?thesis unfolding res using quiet [OF finally_quiet] by (rule RR)
    qed
    with a res show ?thesis by blast
  qed
qed


section \<open>Resuming\<close>

lemma run_actions_covers:
  assumes leaf: "\<And>(d::entry) (ac::entry) (p::entry) s s'.
        process_part w (name d) (name ac) p s = (None, s')
        \<Longrightarrow> insert (ledger_key (name d) (name ac) (name p)) (f (progress s)) \<subseteq> f (progress s')"
  shows "run_actions w as s = (None, s') \<Longrightarrow> f (progress s) \<union> set (keys_of as) \<subseteq> f (progress s')"
proof (induction as arbitrary: s)
  case Nil
  then show ?case by simp
next
  case (Cons a as)
  obtain r1 s1 where a: "do_action w a s = (r1, s1)" by (cases "do_action w a s")
  with Cons.prems have r1: "r1 = None" and rest: "run_actions w as s1 = (None, s')"
    by (auto split: option.splits)
  have step: "f (progress s) \<union> set (keys_of [a]) \<subseteq> f (progress s1)"
  proof (cases "\<exists>d ac p. a = Leaf d ac p")
    case True
    then obtain d ac p where l: "a = Leaf d ac p" by blast
    with a r1 have "process_part w (name d) (name ac) p s = (None, s1)"
      by (simp add: do_action_def)
    from leaf [OF this] l show ?thesis by simp
  next
    case False
    then have "quiet_step s s1" using do_action_quiet [OF _ a] by blast
    moreover have "keys_of [a] = []" using False by (cases a) simp_all
    ultimately show ?thesis by (simp add: quiet_step_def)
  qed
  have "keys_of (a # as) = keys_of [a] @ keys_of as"
    using keys_of_simps(2) [of "[a]" as] by simp
  with step Cons.IH [OF rest] show ?case by auto
qed

lemma download_all_sel_covers:
  assumes leaf: "\<And>(d::entry) (ac::entry) (p::entry) s s'.
        process_part w (name d) (name ac) p s = (None, s')
        \<Longrightarrow> insert (ledger_key (name d) (name ac) (name p)) (f (progress s)) \<subseteq> f (progress s')"
    and run: "download_all_sel w td s = (None, s')"
  shows "f (progress s) \<union> set (enumerated_keys w (districts_of_run w td)) \<subseteq> f (progress s')"
proof -
  obtain r1 s1 where su: "setup_driver w s = (r1, s1)" by (cases "setup_driver w s")
  with run have r1: "r1 = None" by (auto simp: download_all_sel_flat split: option.splits)
  define s2 where "s2 = snd (get_districts_sel w s1)"
  obtain r3 s3 where ra: "run_actions w (schedule w (districts_of_run w td)) s2 = (r3, s3)"
    by (cases "run_actions w (schedule w (districts_of_run w td)) s2")
  from run su r1 ra have res: "r3 = None" "s' = print_stats (close_driver s3)"
    by (simp_all add: download_all_sel_flat s2_def)
  have "quiet_step s s2"
    using setup_driver_quiet [OF su] get_districts_sel_quiet unfolding s2_def by (rule quiet_step_trans)
  then have p2: "progress s2 = progress s" by (simp add: quiet_step_def)
  have p3: "progress s' = progress s3"
    unfolding res using finally_quiet [of s3] by (simp add: quiet_step_def)
  from run_actions_covers [where f = f, OF leaf] ra res(1)
  have "f (progress s2) \<union> set (keys_of (schedule w (districts_of_run w td))) \<subseteq> f (progress s3)"
    by blast
  then show ?thesis by (simp add: p2 p3 keys_of_schedule)
qed

lemma process_part_marks:
  assumes "process_part w dn an p s = (r, s')"
  shows "progress s' = progress s \<and> ledger_key dn an (name p) \<in> set (completed (progress s))
       \<or> (\<exists>b. progress s' = mark b (ledger_key dn an (name p)) (progress s)
              \<and> b = part_downloaded w (trace s) (dn, an, entry_value p, name p)
              \<and> ledger_key dn an (name p) \<notin> set (completed (progress s)))"
  using assms
  by (cases "ledger_key dn an (name p) \<in> set (completed (progress s))")
     (auto simp: process_part_skip process_part_fetch split: option.splits)

lemma process_part_completes:
  assumes "\<And>tr c. part_downloaded w tr c" and "process_part w dn an p s = (r, s')"
  shows "insert (ledger_key dn an (name p)) (set (completed (progress s))) \<subseteq> set (completed (progress s'))"
  using process_part_marks [OF assms(2)] assms(1) by (auto simp: mark_def)

lemma all_completed_no_fetch:
  fixes w :: "'a browser_world_scheme"
  assumes all: "set (enumerated_keys w (districts_of_run w td)) \<subseteq> set (completed (progress s))"
    and run: "download_all_sel w td s = (r, s')"
  shows "progress s' = progress s \<and> fetches (trace s') = fetches (trace s)
       \<and> downloaded (stats s') = downloaded (stats s)
       \<and> stats.failed (stats s') = stats.failed (stats s)"
proof -
  define K where "K = set (enumerated_keys w (districts_of_run w td))"
  define R where "R = (\<lambda>(a::selenium_downloader) (b::selenium_downloader). K \<subseteq> set (completed (progress a)) \<longrightarrow>
       progress b = progress a \<and> fetches (trace b) = fetches (trace a)
       \<and> downloaded (stats b) = downloaded (stats a)
       \<and> stats.failed (stats b) = stats.failed (stats a))"
  have q: "R a b" if "quiet_step a b" for a b
    using that unfolding R_def quiet_step_def by auto
  have l: "R a b" if "ledger_key (name d) (name ac) (name p) \<in> K"
      and "process_part w (name d) (name ac) p a = (x, b)" for d ac p :: entry and a b x
    using that unfolding R_def by (auto simp: process_part_skip)
  have "R s s' \<and> (r = None \<longrightarrow> R s s')"
  proof (rule download_all_sel_rel [where R = R and A = R, OF _ _ _ _ _ _ _ _ run])
    show "R a a" for a by (simp add: R_def)
    show "R a c" if "R a b" "R b c" for a b c using that unfolding R_def by auto
    then show "R a c" if "R a b" "R b c" for a b c using that by blast
    show "R a b" if "R a b" for a b by (rule that)
    show "R a c" if "R a b" "quiet_step b c" for a b c
      using that q [of b c] unfolding R_def by auto
    show "R a b" if "quiet_step a b" for a b using that by (rule q)
    show "R a b" if "ledger_key (name d) (name ac) (name p) \<in> set (enumerated_keys w (districts_of_run w td))"
      and "process_part w (name d) (name ac) p a = (None, b)" for d ac p :: entry and a b
      using that l unfolding K_def by blast
    show "R a b" if "ledger_key (name d) (name ac) (name p) \<in> set (enumerated_keys w (districts_of_run w td))"
      and "process_part w (name d) (name ac) p a = (Some e, b)" for d ac p :: entry and a b e
      using that l unfolding K_def by blast
  qed
  then show ?thesis using all unfolding R_def K_def by blast
qed

lemma enumerated_keys_cong:
  fixes w w' :: "'a browser_world_scheme"
  assumes "districts_found w' = districts_found w" "constituencies_found w' = constituencies_found w"
    "parts_found w' = parts_found w"
  shows "enumerated_keys w' (districts_of_run w' td) = enumerated_keys w (districts_of_run w td)"
  using assms by (simp add: enumerated_keys_def districts_of_run_def get_constituencies_sel_def get_parts_sel_def)

text \<open>
  C1. A leaf whose ledger key is already in \<open>completed\<close> is skipped: nothing is fetched,
  no counter moves, the state is as before. So a run in which every enumerated key is
  already completed invokes the fetcher not once and leaves both outcome counters alone;
  and that is how a second run starts when it shares the ledger of a first run that
  returned and in which every fetch succeeded, over the same portal.
\<close>

theorem resume_idempotence:
  fixes w w' :: "'a browser_world_scheme"
  shows
  "(ledger_key dn an (name p) \<in> set (completed (progress s)) \<longrightarrow> process_part w dn an p s = (None, s))
   \<and> (set (enumerated_keys w (districts_of_run w td)) \<subseteq> set (completed (progress s))
      \<longrightarrow> fetches (trace (snd (download_all_sel w td s))) = fetches (trace s)
          \<and> downloaded (stats (snd (download_all_sel w td s))) = downloaded (stats s)
          \<and> stats.failed (stats (snd (download_all_sel w td s))) = stats.failed (stats s))
   \<and> ((\<forall>tr c. part_downloaded w tr c) \<and> download_all_sel w td s0 = (None, s1)
        \<and> districts_found w' = districts_found w
        \<and> constituencies_found w' = constituencies_found w
        \<and> parts_found w' = parts_found w
        \<and> progress s2 = progress s1
      \<longrightarrow> fetches (trace (snd (download_all_sel w' td s2))) = fetches (trace s2)
          \<and> downloaded (stats (snd (download_all_sel w' td s2))) = downloaded (stats s2)
          \<and> stats.failed (stats (snd (download_all_sel w' td s2))) = stats.failed (stats s2))"
proof -
  have skip: "process_part w dn an p s = (None, s)"
    if "ledger_key dn an (name p) \<in> set (completed (progress s))"
    using that by (rule process_part_skip)
  have one: "fetches (trace (snd (download_all_sel w td s))) = fetches (trace s)
          \<and> downloaded (stats (snd (download_all_sel w td s))) = downloaded (stats s)
          \<and> stats.failed (stats (snd (download_all_sel w td s))) = stats.failed (stats s)"
    if "set (enumerated_keys w (districts_of_run w td)) \<subseteq> set (completed (progress s))"
    using all_completed_no_fetch [OF that, of "fst (download_all_sel w td s)" "snd (download_all_sel w td s)"]
    by simp
  have two: "fetches (trace (snd (download_all_sel w' td s2))) = fetches (trace s2)
          \<and> downloaded (stats (snd (download_all_sel w' td s2))) = downloaded (stats s2)
          \<and> stats.failed (stats (snd (download_all_sel w' td s2))) = stats.failed (stats s2)"
    if always: "\<forall>tr c. part_downloaded w tr c" and first: "download_all_sel w td s0 = (None, s1)"
      and same: "districts_found w' = districts_found w" "constituencies_found w' = constituencies_found w"
        "parts_found w' = parts_found w"
      and shared: "progress s2 = progress s1"
  proof -
    have "set (completed (progress s0)) \<union> set (enumerated_keys w (districts_of_run w td))
        \<subseteq> set (completed (progress s1))"
      by (rule download_all_sel_covers [where f = "\<lambda>p. set (completed p)", OF _ first])
         (use always process_part_completes in blast)
    then have "set (enumerated_keys w' (districts_of_run w' td)) \<subseteq> set (completed (progress s2))"
      using enumerated_keys_cong [OF same] shared by simp
    from all_completed_no_fetch [OF this, of "fst (download_all_sel w' td s2)" "snd (download_all_sel w' td s2)"]
    show ?thesis by simp
  qed
  from skip one two show ?thesis by blast
qed


lemmas sel_defs =
  download_all_sel_def download_all_body_def setup_driver_def close_driver_def print_stats_def
  get_districts_sel_def get_constituencies_sel_def get_parts_sel_def select_districts_def
  process_district_sel_def process_ac_sel_def process_part_def download_part_data_def
  save_progress_def load_progress_def new_selenium_downloader_def
  ledger_key_def mark_def count_download_def do_mkdir_def do_write_def
  tiny_site_def stub_browser_def fresh_selenium_downloader_def zero_stats_def
  sanitize_filename_def strip_def replace_def invalid_chars_def isspace_def Let_def

lemma first_run:
  "download_all_sel (tiny_site [] []) None (fresh_selenium_downloader \<lparr>completed = [], failed = []\<rparr>)
     = (None,
        \<lparr>output_dir = Path ''out'',
         stats = \<lparr>districts = 2, constituencies = 1, parts = 2, downloaded = 2, failed = 0\<rparr>,
         trace = [Mkdir (Path ''out'') False, Driver_started,
                  Mkdir (Join (Path ''out'') ''North'') False,
                  Mkdir (Join (Join (Path ''out'') ''North'') ''AC Seven'') False,
                  Fetched (''North'', ''AC Seven'', ''101'', ''P1'') True,
                  Wrote (Join (Path ''out'') ''download_progress.json'') ''null'',
                  Slept 1,
                  Fetched (''North'', ''AC Seven'', ''102'', ''P2'') True,
                  Wrote (Join (Path ''out'') ''download_progress.json'') ''null'',
                  Slept 1,
                  Page_loaded ''https://ceowestbengal.wb.gov.in/asd_sir'', Slept 2,
                  Mkdir (Join (Path ''out'') ''South'') False,
                  Driver_closed,
                  Stats_printed \<lparr>districts = 2, constituencies = 1, parts = 2, downloaded = 2, failed = 0\<rparr>],
         headless = True, url = ''https://ceowestbengal.wb.gov.in/asd_sir'',
         progress_file = Join (Path ''out'') ''download_progress.json'',
         progress = \<lparr>completed = [''North|AC Seven|P1'', ''North|AC Seven|P2''], failed = []\<rparr>,
         driver = True\<rparr>)"
  by (simp add: sel_defs)


theorem resume_idempotence_witness:
  "(\<forall>tr c. part_downloaded (tiny_site [] []) tr c)
   \<and> fst (download_all_sel (tiny_site [] []) None
            (fresh_selenium_downloader \<lparr>completed = [], failed = []\<rparr>)) = None
   \<and> progress (snd (download_all_sel (tiny_site [] []) None
            (fresh_selenium_downloader \<lparr>completed = [], failed = []\<rparr>)))
       = \<lparr>completed = [''North|AC Seven|P1'', ''North|AC Seven|P2''], failed = []\<rparr>
   \<and> fetches (trace (snd (download_all_sel
          (tiny_site [(''North'', ''AC Seven'', ''101'', ''P1''), (''North'', ''AC Seven'', ''102'', ''P2'')] [])
          None
          (fresh_selenium_downloader
             \<lparr>completed = [''North|AC Seven|P1'', ''North|AC Seven|P2''], failed = []\<rparr>)))) = []
   \<and> downloaded (stats (snd (download_all_sel
          (tiny_site [(''North'', ''AC Seven'', ''101'', ''P1''), (''North'', ''AC Seven'', ''102'', ''P2'')] [])
          None
          (fresh_selenium_downloader
             \<lparr>completed = [''North|AC Seven|P1'', ''North|AC Seven|P2''], failed = []\<rparr>)))) = 0"
proof -
  let ?w = "tiny_site [] []"
  let ?w' = "tiny_site [(''North'', ''AC Seven'', ''101'', ''P1''), (''North'', ''AC Seven'', ''102'', ''P2'')] []"
  let ?s0 = "fresh_selenium_downloader \<lparr>completed = [], failed = []\<rparr>"
  let ?s1 = "snd (download_all_sel ?w None ?s0)"
  let ?s2 = "fresh_selenium_downloader
             \<lparr>completed = [''North|AC Seven|P1'', ''North|AC Seven|P2''], failed = []\<rparr>"
  have always: "\<forall>tr c. part_downloaded ?w tr c"
    by (simp add: tiny_site_def stub_browser_def)
  have none: "fst (download_all_sel ?w None ?s0) = None" by (simp add: first_run)
  then have first: "download_all_sel ?w None ?s0 = (None, ?s1)" by (simp add: prod_eq_iff)
  have p1: "progress ?s1 = \<lparr>completed = [''North|AC Seven|P1'', ''North|AC Seven|P2''], failed = []\<rparr>"
    by (simp add: first_run)
  have same: "districts_found ?w' = districts_found ?w"
    "constituencies_found ?w' = constituencies_found ?w" "parts_found ?w' = parts_found ?w"
    by (simp_all add: tiny_site_def stub_browser_def)
  have shared: "progress ?s2 = progress ?s1"
    unfolding p1 by (simp add: fresh_selenium_downloader_def)
  have "fetches (trace (snd (download_all_sel ?w' None ?s2))) = fetches (trace ?s2)
      \<and> downloaded (stats (snd (download_all_sel ?w' None ?s2))) = downloaded (stats ?s2)
      \<and> stats.failed (stats (snd (download_all_sel ?w' None ?s2))) = stats.failed (stats ?s2)"
    using resume_idempotence [of "''x''" "''y''" "\<lparr>entry_value = ''1'', name = ''z''\<rparr>" ?s0 ?w None ?s0 ?s1 ?w' ?s2,
        THEN conjunct2, THEN conjunct2] always first same shared
    by blast
  then have "fetches (trace (snd (download_all_sel ?w' None ?s2))) = []
      \<and> downloaded (stats (snd (download_all_sel ?w' None ?s2))) = 0"
    by (simp add: fresh_selenium_downloader_def zero_stats_def obs_Cons)
  with always none p1 show ?thesis by blast
qed

section \<open>The ledger only grows\<close>

lemma ledger_grows:
  fixes w :: "'a browser_world_scheme"
  assumes run: "download_all_sel w td s = (r, s')"
  shows "\<exists>cs fs. completed (progress s') = completed (progress s) @ cs
           \<and> progress.failed (progress s') = progress.failed (progress s) @ fs
           \<and> set cs \<inter> set (completed (progress s)) = {} \<and> distinct cs
           \<and> set fs \<inter> set (completed (progress s)) = {}"
proof -
  define R where "R = (\<lambda>(a::selenium_downloader) (b::selenium_downloader).
      \<exists>cs fs. completed (progress b) = completed (progress a) @ cs
           \<and> progress.failed (progress b) = progress.failed (progress a) @ fs
           \<and> set cs \<inter> set (completed (progress a)) = {} \<and> distinct cs
           \<and> set fs \<inter> set (completed (progress a)) = {})"
  have refl: "R a a" for a by (simp add: R_def)
  have trans: "R a c" if "R a b" "R b c" for a b c
  proof -
    from that(1) obtain cs1 fs1 where 1: "completed (progress b) = completed (progress a) @ cs1"
      "progress.failed (progress b) = progress.failed (progress a) @ fs1"
      "set cs1 \<inter> set (completed (progress a)) = {}" "distinct cs1"
      "set fs1 \<inter> set (completed (progress a)) = {}"
      unfolding R_def by blast
    from that(2) obtain cs2 fs2 where 2: "completed (progress c) = completed (progress b) @ cs2"
      "progress.failed (progress c) = progress.failed (progress b) @ fs2"
      "set cs2 \<inter> set (completed (progress b)) = {}" "distinct cs2"
      "set fs2 \<inter> set (completed (progress b)) = {}"
      unfolding R_def by blast
    have "completed (progress c) = completed (progress a) @ (cs1 @ cs2)"
      "progress.failed (progress c) = progress.failed (progress a) @ (fs1 @ fs2)"
      using 1 2 by simp_all
    moreover have "set (cs1 @ cs2) \<inter> set (completed (progress a)) = {}" "distinct (cs1 @ cs2)"
      "set (fs1 @ fs2) \<inter> set (completed (progress a)) = {}"
      using 1 2 by auto
    ultimately show ?thesis unfolding R_def by blast
  qed
  have q: "R a b" if "quiet_step a b" for a b
    using that by (simp add: R_def quiet_step_def)
  have l: "R a b" if "process_part w dn an p a = (x, b)" for dn an p a b x
    using process_part_marks [OF that]
  proof (elim disjE conjE exE)
    assume "progress b = progress a"
    then show ?thesis by (simp add: R_def)
  next
    fix k
    assume m: "progress b = mark k (ledger_key dn an (name p)) (progress a)"
      and n: "ledger_key dn an (name p) \<notin> set (completed (progress a))"
    show ?thesis
    proof (cases k)
      case True
      with m n show ?thesis
        unfolding R_def
        by (intro exI [of _ "[ledger_key dn an (name p)]"] exI [of _ "[]"]) (simp add: mark_def)
    next
      case False
      with m n show ?thesis
        unfolding R_def
        by (intro exI [of _ "[]"] exI [of _ "[ledger_key dn an (name p)]"]) (simp add: mark_def)
    qed
  qed
  have "R s s' \<and> (r = None \<longrightarrow> R s s')"
    by (rule download_all_sel_rel [where R = R and A = R, OF refl trans trans _ _ q _ _ run])
       (use trans q l in blast)+
  then show ?thesis unfolding R_def by blast
qed

text \<open>
  C6, as the code has it. A leaf whose key is already in \<open>completed\<close> leaves the ledger, and
  everything else, unchanged. Any other leaf appends its key to exactly one of the two
  lists: to \<open>completed\<close> when the fetch succeeds, to \<open>failed\<close> when it fails. Over a run both lists only grow at the end; a key is added to \<open>completed\<close> only
  when it is not there yet, and a key that is in \<open>completed\<close> is never added to \<open>failed\<close>.
  Nothing is ever removed from \<open>failed\<close>.
\<close>

theorem ledger_append_only:
  fixes w :: "'a browser_world_scheme"
  shows
  "(ledger_key dn an (name p) \<in> set (completed (progress s)) \<longrightarrow> process_part w dn an p s = (None, s))
   \<and> (ledger_key dn an (name p) \<notin> set (completed (progress s))
        \<and> part_downloaded w (trace s) (dn, an, entry_value p, name p)
      \<longrightarrow> progress (snd (process_part w dn an p s))
           = (progress s)\<lparr>completed := completed (progress s) @ [ledger_key dn an (name p)]\<rparr>)
   \<and> (ledger_key dn an (name p) \<notin> set (completed (progress s))
        \<and> \<not> part_downloaded w (trace s) (dn, an, entry_value p, name p)
      \<longrightarrow> progress (snd (process_part w dn an p s))
           = (progress s)\<lparr>progress.failed := progress.failed (progress s) @ [ledger_key dn an (name p)]\<rparr>)
   \<and> (\<exists>cs fs. completed (progress (snd (download_all_sel w td s))) = completed (progress s) @ cs
           \<and> progress.failed (progress (snd (download_all_sel w td s))) = progress.failed (progress s) @ fs
           \<and> set cs \<inter> set (completed (progress s)) = {} \<and> distinct cs
           \<and> set fs \<inter> set (completed (progress s)) = {})"
proof -
  note m = process_part_marks [of w dn an p s "fst (process_part w dn an p s)" "snd (process_part w dn an p s)"]
  have good: "progress (snd (process_part w dn an p s))
           = (progress s)\<lparr>completed := completed (progress s) @ [ledger_key dn an (name p)]\<rparr>"
    if "ledger_key dn an (name p) \<notin> set (completed (progress s))"
      and "part_downloaded w (trace s) (dn, an, entry_value p, name p)"
    using m that by (auto simp: mark_def)
  have bad: "progress (snd (process_part w dn an p s))
           = (progress s)\<lparr>progress.failed := progress.failed (progress s) @ [ledger_key dn an (name p)]\<rparr>"
    if "ledger_key dn an (name p) \<notin> set (completed (progress s))"
      and "\<not> part_downloaded w (trace s) (dn, an, entry_value p, name p)"
    using m that by (auto simp: mark_def)
  show ?thesis
    using process_part_skip [of dn an p s w] good bad
      ledger_grows [of w td s "fst (download_all_sel w td s)" "snd (download_all_sel w td s)"]
    by simp
qed

text \<open>
  C6 as stated fails: a key recorded as failed by an earlier run and downloaded in this
  one is appended to \<open>completed\<close> and stays in \<open>failed\<close>.
\<close>

theorem retried_key_in_both_sets:
  "progress (snd (download_all_sel (tiny_site [] []) None
       (fresh_selenium_downloader \<lparr>completed = [], failed = [''North|AC Seven|P1'']\<rparr>)))
     = \<lparr>completed = [''North|AC Seven|P1'', ''North|AC Seven|P2''], failed = [''North|AC Seven|P1'']\<rparr>
   \<and> ''North|AC Seven|P1'' \<in> set (completed (progress (snd (download_all_sel (tiny_site [] []) None
         (fresh_selenium_downloader \<lparr>completed = [], failed = [''North|AC Seven|P1'']\<rparr>))))) \<inter>
       set (progress.failed (progress (snd (download_all_sel (tiny_site [] []) None
         (fresh_selenium_downloader \<lparr>completed = [], failed = [''North|AC Seven|P1'']\<rparr>)))))"
  by (simp add: sel_defs)

theorem ledger_append_only_witness:
  "ledger_key ''North'' ''AC Seven'' (name \<lparr>entry_value = ''101'', name = ''P1''\<rparr>)
       \<in> set (completed (progress (fresh_selenium_downloader \<lparr>completed = [''North|AC Seven|P1''], failed = []\<rparr>)))
   \<and> process_part (tiny_site [] []) ''North'' ''AC Seven'' \<lparr>entry_value = ''101'', name = ''P1''\<rparr>
       (fresh_selenium_downloader \<lparr>completed = [''North|AC Seven|P1''], failed = []\<rparr>)
     = (None, fresh_selenium_downloader \<lparr>completed = [''North|AC Seven|P1''], failed = []\<rparr>)
   \<and> part_downloaded (tiny_site [(''North'', ''AC Seven'', ''101'', ''P1'')] [])
        (trace (fresh_selenium_downloader \<lparr>completed = [''North|AC Seven|P1''], failed = []\<rparr>))
        (''North'', ''AC Seven'', ''102'', ''P2'')
   \<and> progress (snd (process_part (tiny_site [(''North'', ''AC Seven'', ''101'', ''P1'')] [])
          ''North'' ''AC Seven'' \<lparr>entry_value = ''102'', name = ''P2''\<rparr>
          (fresh_selenium_downloader \<lparr>completed = [''North|AC Seven|P1''], failed = []\<rparr>)))
     = \<lparr>completed = [''North|AC Seven|P1'', ''North|AC Seven|P2''], failed = []\<rparr>
   \<and> progress (snd (process_part (tiny_site [(''North'', ''AC Seven'', ''102'', ''P2'')] [])
          ''North'' ''AC Seven'' \<lparr>entry_value = ''102'', name = ''P2''\<rparr>
          (fresh_selenium_downloader \<lparr>completed = [''North|AC Seven|P1''], failed = []\<rparr>)))
     = \<lparr>completed = [''North|AC Seven|P1''], failed = [''North|AC Seven|P2'']\<rparr>"
proof -
  let ?s = "fresh_selenium_downloader \<lparr>completed = [''North|AC Seven|P1''], failed = []\<rparr>"
  let ?p1 = "\<lparr>entry_value = ''101'', name = ''P1''\<rparr>"
  let ?p2 = "\<lparr>entry_value = ''102'', name = ''P2''\<rparr>"
  let ?good = "tiny_site [(''North'', ''AC Seven'', ''101'', ''P1'')] []"
  let ?bad = "tiny_site [(''North'', ''AC Seven'', ''102'', ''P2'')] []"
  have k: "ledger_key ''North'' ''AC Seven'' (name ?p1) \<in> set (completed (progress ?s))"
    by (simp add: ledger_key_def fresh_selenium_downloader_def)
  have n: "ledger_key ''North'' ''AC Seven'' (name ?p2) \<notin> set (completed (progress ?s))"
    by (simp add: ledger_key_def fresh_selenium_downloader_def)
  have g: "part_downloaded ?good (trace ?s) (''North'', ''AC Seven'', entry_value ?p2, name ?p2)"
    by (simp add: tiny_site_def stub_browser_def)
  have b: "\<not> part_downloaded ?bad (trace ?s) (''North'', ''AC Seven'', entry_value ?p2, name ?p2)"
    by (simp add: tiny_site_def stub_browser_def)
  from ledger_append_only [of "''North''" "''AC Seven''" ?p1 ?s "tiny_site [] []" None] k
  have 1: "process_part (tiny_site [] []) ''North'' ''AC Seven'' ?p1 ?s = (None, ?s)" by blast
  from ledger_append_only [of "''North''" "''AC Seven''" ?p2 ?s ?good None] n g
  have "progress (snd (process_part ?good ''North'' ''AC Seven'' ?p2 ?s))
      = (progress ?s)\<lparr>completed := completed (progress ?s) @ [ledger_key ''North'' ''AC Seven'' (name ?p2)]\<rparr>"
    by blast
  then have 2: "progress (snd (process_part ?good ''North'' ''AC Seven'' ?p2 ?s))
      = \<lparr>completed = [''North|AC Seven|P1'', ''North|AC Seven|P2''], failed = []\<rparr>"
    by (simp add: ledger_key_def fresh_selenium_downloader_def)
  from ledger_append_only [of "''North''" "''AC Seven''" ?p2 ?s ?bad None] n b
  have "progress (snd (process_part ?bad ''North'' ''AC Seven'' ?p2 ?s))
      = (progress ?s)\<lparr>progress.failed := progress.failed (progress ?s)
            @ [ledger_key ''North'' ''AC Seven'' (name ?p2)]\<rparr>"
    by blast
  then have 3: "progress (snd (process_part ?bad ''North'' ''AC Seven'' ?p2 ?s))
      = \<lparr>completed = [''North|AC Seven|P1''], failed = [''North|AC Seven|P2'']\<rparr>"
    by (simp add: ledger_key_def fresh_selenium_downloader_def)
  from g have g': "part_downloaded ?good (trace ?s) (''North'', ''AC Seven'', ''102'', ''P2'')" by simp
  from k 1 g' 2 3 show ?thesis by blast
qed

section \<open>Persisting after each leaf\<close>

lemma flush_run_simps [simp]:
  "flush_run D f st [] = st"
  "flush_run D f st (ev # evs) = flush_run D f (flush_step D f st ev) evs"
  "flush_run D f st (xs @ ys) = flush_run D f (flush_run D f st xs) ys"
  by (simp_all add: flush_run_def)

lemma flush_run_Broken [simp]: "flush_run D f Broken evs = Broken"
  by (induction evs) simp_all

lemma flush_step_other:
  assumes "fetches [ev] = []" and "\<And>p. written p [ev] = []"
  shows "flush_step D f st ev = st"
proof (cases ev)
  case (Wrote q t)
  with assms(2) [of q] show ?thesis by (simp add: obs_Cons)
next
  case (Fetched c b)
  with assms(1) show ?thesis by (simp add: obs_Cons)
qed (cases st; simp)+

lemma flush_run_quiet:
  "fetches evs = [] \<Longrightarrow> (\<And>p. written p evs = []) \<Longrightarrow> flush_run D f st evs = st"
proof (induction evs arbitrary: st)
  case Nil
  then show ?case by simp
next
  case (Cons ev evs)
  have f: "fetches [ev] = []" "fetches evs = []"
    using Cons.prems(1) fetches_simps(2) [of "[ev]" evs] by simp_all
  have w: "written p [ev] = []" "written p evs = []" for p
    using Cons.prems(2) [of p] written_simps(6) [of p "[ev]" evs] by simp_all
  show ?case
    using Cons.IH [OF f(2) w(2)] flush_step_other [OF f(1) w(1)] by simp
qed

lemma flush_run_prefix:
  assumes "flush_run D f st evs \<noteq> Broken"
  shows "flush_run D f st (take n evs) \<noteq> Broken"
proof
  assume "flush_run D f st (take n evs) = Broken"
  then have "flush_run D f st (take n evs @ drop n evs) = Broken"
    by (simp del: append_take_drop_id)
  with assms show False by simp
qed

lemma process_part_trace:
  fixes w :: "'a browser_world_scheme"
  assumes "process_part w dn an p s = (r, s')"
  shows "progress_file s' = progress_file s \<and>
    (s' = s \<and> r = None \<and> ledger_key dn an (name p) \<in> set (completed (progress s))
     \<or> (\<exists>b. progress s' = mark b (ledger_key dn an (name p)) (progress s)
            \<and> ledger_key dn an (name p) \<notin> set (completed (progress s))
            \<and> b = part_downloaded w (trace s) (dn, an, entry_value p, name p)
            \<and> stats s' = count_download b (stats s)
            \<and> (r = None \<and> trace s' = trace s @ [Fetched (dn, an, entry_value p, name p) b,
                    Wrote (progress_file s) (json_dump w (progress s')), Slept 1]
               \<or> r \<noteq> None \<and> trace s' = trace s @ [Fetched (dn, an, entry_value p, name p) b])))"
  using assms
  by (cases "ledger_key dn an (name p) \<in> set (completed (progress s))")
     (auto simp: process_part_skip process_part_fetch split: option.splits)

lemma flushed_run:
  fixes w :: "'a browser_world_scheme"
  assumes run: "download_all_sel w td s = (r, s')"
  shows "\<exists>evs. trace s' = trace s @ evs
      \<and> (flush_run (json_dump w) (progress_file s) (Synced (progress s)) evs = Synced (progress s')
         \<or> r \<noteq> None \<and> flush_run (json_dump w) (progress_file s) (Synced (progress s)) evs
                       = Pending (progress s'))"
proof -
  define D where "D = json_dump w"
  define R where "R = (\<lambda>(a::selenium_downloader) (b::selenium_downloader).
      progress_file b = progress_file a \<and>
      (\<exists>evs. trace b = trace a @ evs
         \<and> flush_run D (progress_file a) (Synced (progress a)) evs = Synced (progress b)))"
  define A where "A = (\<lambda>(a::selenium_downloader) (b::selenium_downloader).
      progress_file b = progress_file a \<and>
      (\<exists>evs. trace b = trace a @ evs
         \<and> (flush_run D (progress_file a) (Synced (progress a)) evs = Synced (progress b)
            \<or> flush_run D (progress_file a) (Synced (progress a)) evs = Pending (progress b))))"
  have refl: "R a a" for a by (simp add: R_def)
  have RR: "R a c" if "R a b" "R b c" for a b c
    using that unfolding R_def by (elim conjE exE) simp
  have RA: "A a c" if "R a b" "A b c" for a b c
    using that unfolding R_def A_def by (elim conjE exE) auto
  have R_A: "A a b" if "R a b" for a b
    using that unfolding R_def A_def by blast
  have AQ: "A a c" if "A a b" "quiet_step b c" for a b c
  proof -
    from that(2) obtain evs2 where 2: "trace c = trace b @ evs2" "fetches evs2 = []"
      "\<And>p. written p evs2 = []" "progress c = progress b" "progress_file c = progress_file b"
      unfolding quiet_step_def by blast
    from that(1) obtain evs1 where 1: "trace b = trace a @ evs1" "progress_file b = progress_file a"
      "flush_run D (progress_file a) (Synced (progress a)) evs1 = Synced (progress b)
       \<or> flush_run D (progress_file a) (Synced (progress a)) evs1 = Pending (progress b)"
      unfolding A_def by blast
    have "trace c = trace a @ (evs1 @ evs2)" using 1 2 by simp
    moreover have "flush_run D (progress_file a) (Synced (progress a)) (evs1 @ evs2) = Synced (progress c)
       \<or> flush_run D (progress_file a) (Synced (progress a)) (evs1 @ evs2) = Pending (progress c)"
      using 1(3) 2(4) flush_run_quiet [OF 2(2) 2(3)] by auto
    ultimately have "\<exists>evs. trace c = trace a @ evs
         \<and> (flush_run D (progress_file a) (Synced (progress a)) evs = Synced (progress c)
            \<or> flush_run D (progress_file a) (Synced (progress a)) evs = Pending (progress c))"
      by (intro exI [of _ "evs1 @ evs2"] conjI)
    then show ?thesis unfolding A_def using 1(2) 2(5) by simp
  qed
  have q: "R a b" if "quiet_step a b" for a b
  proof -
    from that obtain evs where e: "trace b = trace a @ evs" "fetches evs = []"
      "\<And>p. written p evs = []" "progress b = progress a" "progress_file b = progress_file a"
      unfolding quiet_step_def by blast
    then show ?thesis unfolding R_def using flush_run_quiet [OF e(2) e(3)] by auto
  qed
  have l: "R a b" if "process_part w dn an p a = (None, b)" for dn an p a b
    using process_part_trace [OF that] unfolding R_def D_def
    by (auto simp: key_of_def)
  have lf: "A a b" if "process_part w dn an p a = (Some e, b)" for dn an p a b e
    using process_part_trace [OF that] unfolding A_def D_def
    by (auto simp: key_of_def)
  have "A s s' \<and> (r = None \<longrightarrow> R s s')"
    by (rule download_all_sel_rel [where R = R and A = A, OF refl RR RA R_A AQ q _ _ run])
       (use l lf in blast)+
  then show ?thesis unfolding R_def A_def D_def by (cases r) auto
qed

text \<open>
  C2. A leaf that is fetched and lets the loop go on has had its outcome added to the
  ledger and the ledger written to the progress file, as the effects that follow the
  fetch. Over a whole run, reading the effects in order: each outcome is followed by the
  write of the ledger holding every outcome so far before any other outcome arrives, so no
  prefix of the run has more than one outcome unwritten; at the end everything is written,
  unless the run was ended by an exception, when the last outcome alone may be unwritten.
\<close>

theorem flush_after_each_leaf:
  fixes w :: "'a browser_world_scheme"
  shows
  "(ledger_key dn an (name p) \<notin> set (completed (progress s)) \<and> process_part w dn an p s = (None, s1)
     \<longrightarrow> (\<exists>b. progress s1 = mark b (ledger_key dn an (name p)) (progress s)
            \<and> trace s1 = trace s @ [Fetched (dn, an, entry_value p, name p) b,
                                    Wrote (progress_file s) (json_dump w (progress s1)), Slept 1]))
   \<and> (\<exists>evs. trace (snd (download_all_sel w td s)) = trace s @ evs
        \<and> (flush_run (json_dump w) (progress_file s) (Synced (progress s)) evs
             = Synced (progress (snd (download_all_sel w td s)))
           \<or> fst (download_all_sel w td s) \<noteq> None
             \<and> flush_run (json_dump w) (progress_file s) (Synced (progress s)) evs
                 = Pending (progress (snd (download_all_sel w td s))))
        \<and> (\<forall>n. flush_run (json_dump w) (progress_file s) (Synced (progress s)) (take n evs) \<noteq> Broken))"
proof -
  have leaf: "\<exists>b. progress s1 = mark b (ledger_key dn an (name p)) (progress s)
            \<and> trace s1 = trace s @ [Fetched (dn, an, entry_value p, name p) b,
                                    Wrote (progress_file s) (json_dump w (progress s1)), Slept 1]"
    if "ledger_key dn an (name p) \<notin> set (completed (progress s))"
      and "process_part w dn an p s = (None, s1)"
    using process_part_trace [OF that(2)] that(1) by auto
  obtain evs where evs: "trace (snd (download_all_sel w td s)) = trace s @ evs"
    "flush_run (json_dump w) (progress_file s) (Synced (progress s)) evs
             = Synced (progress (snd (download_all_sel w td s)))
     \<or> fst (download_all_sel w td s) \<noteq> None
       \<and> flush_run (json_dump w) (progress_file s) (Synced (progress s)) evs
                 = Pending (progress (snd (download_all_sel w td s)))"
    using flushed_run [of w td s "fst (download_all_sel w td s)" "snd (download_all_sel w td s)"]
    by auto
  then have "flush_run (json_dump w) (progress_file s) (Synced (progress s)) evs \<noteq> Broken"
    by auto
  then have "\<forall>n. flush_run (json_dump w) (progress_file s) (Synced (progress s)) (take n evs) \<noteq> Broken"
    using flush_run_prefix by blast
  with evs leaf show ?thesis by blast
qed


theorem flush_after_each_leaf_witness:
  "ledger_key ''North'' ''AC Seven'' (name \<lparr>entry_value = ''102'', name = ''P2''\<rparr>)
       \<notin> set (completed (progress (fresh_selenium_downloader \<lparr>completed = [''North|AC Seven|P1''], failed = []\<rparr>)))
   \<and> process_part (tiny_site [(''North'', ''AC Seven'', ''102'', ''P2'')] tiny_docs) ''North'' ''AC Seven''
        \<lparr>entry_value = ''102'', name = ''P2''\<rparr>
        (fresh_selenium_downloader \<lparr>completed = [''North|AC Seven|P1''], failed = []\<rparr>)
      = (None, (fresh_selenium_downloader \<lparr>completed = [''North|AC Seven|P1''], failed = []\<rparr>)
           \<lparr>stats := zero_stats\<lparr>stats.failed := 1\<rparr>,
            trace := [Mkdir (Path ''out'') False,
                      Fetched (''North'', ''AC Seven'', ''102'', ''P2'') False,
                      Wrote (Join (Path ''out'') ''download_progress.json'') ''ledger 2'',
                      Slept 1],
            progress := \<lparr>completed = [''North|AC Seven|P1''], failed = [''North|AC Seven|P2'']\<rparr>\<rparr>)
   \<and> (\<exists>b. \<lparr>completed = [''North|AC Seven|P1''], failed = [''North|AC Seven|P2'']\<rparr>
          = mark b ''North|AC Seven|P2'' \<lparr>completed = [''North|AC Seven|P1''], failed = []\<rparr>)"
proof -
  let ?w = "tiny_site [(''North'', ''AC Seven'', ''102'', ''P2'')] tiny_docs"
  let ?s = "fresh_selenium_downloader \<lparr>completed = [''North|AC Seven|P1''], failed = []\<rparr>"
  let ?p = "\<lparr>entry_value = ''102'', name = ''P2''\<rparr>"
  let ?s1 = "?s\<lparr>stats := zero_stats\<lparr>stats.failed := 1\<rparr>,
            trace := [Mkdir (Path ''out'') False,
                      Fetched (''North'', ''AC Seven'', ''102'', ''P2'') False,
                      Wrote (Join (Path ''out'') ''download_progress.json'') ''ledger 2'',
                      Slept 1],
            progress := \<lparr>completed = [''North|AC Seven|P1''], failed = [''North|AC Seven|P2'']\<rparr>\<rparr>"
  have k: "ledger_key ''North'' ''AC Seven'' (name ?p) \<notin> set (completed (progress ?s))"
    by (simp add: ledger_key_def fresh_selenium_downloader_def)
  have r: "process_part ?w ''North'' ''AC Seven'' ?p ?s = (None, ?s1)"
    by (simp add: sel_defs tiny_docs_def)
  from flush_after_each_leaf [of "''North''" "''AC Seven''" ?p ?s ?w ?s1 None, THEN conjunct1] k r
  have "\<exists>b. progress ?s1 = mark b (ledger_key ''North'' ''AC Seven'' (name ?p)) (progress ?s)
            \<and> trace ?s1 = trace ?s @ [Fetched (''North'', ''AC Seven'', entry_value ?p, name ?p) b,
                  Wrote (progress_file ?s) (json_dump ?w (progress ?s1)), Slept 1]"
    by blast
  then have "\<exists>b. \<lparr>completed = [''North|AC Seven|P1''], failed = [''North|AC Seven|P2'']\<rparr>
          = mark b ''North|AC Seven|P2'' \<lparr>completed = [''North|AC Seven|P1''], failed = []\<rparr>"
    by (auto simp: fresh_selenium_downloader_def ledger_key_def)
  with k r show ?thesis by blast
qed

section \<open>Loading and saving the ledger\<close>

text \<open>
  C5. Without a progress file \<open>load_progress\<close> returns the empty ledger. When the file
  exists and its text cannot be decoded, \<open>load_progress\<close> raises, and so does the
  constructor that calls it: no downloader with an empty ledger comes to be.
\<close>

theorem load_progress_behaviour:
  fixes w :: "'a browser_world_scheme"
  shows
  "(\<not> path_exists w tr f \<longrightarrow> load_progress w f tr = Inr \<lparr>completed = [], failed = []\<rparr>)
   \<and> (path_exists w tr f \<and> read_file w tr f = Inr t \<and> json_load w t = None
      \<longrightarrow> load_progress w f tr = Inl JSONDecodeError)
   \<and> (mkdir w tr0 (Path out) False = None
       \<and> load_progress w (Join (Path out) ''download_progress.json'') (tr0 @ [Mkdir (Path out) False]) = Inl e
      \<longrightarrow> new_selenium_downloader w out hl tr0 = Inl e)"
  by (simp add: load_progress_def new_selenium_downloader_def do_mkdir_def)

theorem load_progress_behaviour_witness:
  "\<not> path_exists (tiny_site [] tiny_docs) [] (Join (Path ''out'') ''download_progress.json'')
   \<and> load_progress (tiny_site [] tiny_docs) (Join (Path ''out'') ''download_progress.json'') []
       = Inr \<lparr>completed = [], failed = []\<rparr>
   \<and> path_exists (tiny_site [] tiny_docs)
        [Wrote (Join (Path ''out'') ''download_progress.json'') ''{'', Mkdir (Path ''out'') False]
        (Join (Path ''out'') ''download_progress.json'')
   \<and> json_load (tiny_site [] tiny_docs) ''{'' = None
   \<and> load_progress (tiny_site [] tiny_docs) (Join (Path ''out'') ''download_progress.json'')
        [Wrote (Join (Path ''out'') ''download_progress.json'') ''{'', Mkdir (Path ''out'') False]
       = Inl JSONDecodeError
   \<and> new_selenium_downloader (tiny_site [] tiny_docs) ''out'' True
        [Wrote (Join (Path ''out'') ''download_progress.json'') ''{'']
       = Inl JSONDecodeError"
proof -
  let ?w = "tiny_site [] tiny_docs"
  let ?f = "Join (Path ''out'') ''download_progress.json''"
  let ?tr = "[Wrote ?f ''{'', Mkdir (Path ''out'') False]"
  have a: "\<not> path_exists ?w [] ?f"
    by (simp add: tiny_site_def stub_browser_def)
  have b: "path_exists ?w ?tr ?f" "read_file ?w ?tr ?f = Inr ''{''" "json_load ?w ''{'' = None"
    by (simp_all add: tiny_site_def stub_browser_def last_written_def tiny_docs_def)
  have c: "mkdir ?w [Wrote ?f ''{''] (Path ''out'') False = None"
    by (simp add: tiny_site_def stub_browser_def)
  note th = load_progress_behaviour [of ?w "[]" ?f "''{''" "[Wrote ?f ''{'']" "''out''" JSONDecodeError True]
  note th2 = load_progress_behaviour [of ?w ?tr ?f "''{''" "[Wrote ?f ''{'']" "''out''" JSONDecodeError True]
  from th a have 1: "load_progress ?w ?f [] = Inr \<lparr>completed = [], failed = []\<rparr>" by blast
  from th2 b have 2: "load_progress ?w ?f ?tr = Inl JSONDecodeError" by blast
  then have "load_progress ?w ?f ([Wrote ?f ''{''] @ [Mkdir (Path ''out'') False]) = Inl JSONDecodeError"
    by simp
  with th2 c have 3: "new_selenium_downloader ?w ''out'' True [Wrote ?f ''{''] = Inl JSONDecodeError"
    by blast
  from a 1 b 2 3 show ?thesis by blast
qed





section \<open>One failure does not stop the run\<close>

lemma advanced_refl: "advanced t t 0 0 0 {}"
  by (simp add: advanced_def)

lemma advanced_trans:
  "advanced t t1 a1 n1 m1 E1 \<Longrightarrow> advanced t1 t2 a2 n2 m2 E2
     \<Longrightarrow> advanced t t2 (a1 + a2) (n1 + n2) (m1 + m2) (E1 \<union> E2)"
  unfolding advanced_def by auto

lemma get_page_from_sends:
  "set tr \<subseteq> set (snd (get_page_from w u n as tr))
   \<and> (as \<noteq> [] \<longrightarrow> Sent (GET u) \<in> set (snd (get_page_from w u n as tr)))"
proof (induction as arbitrary: tr)
  case Nil
  then show ?case by simp
next
  case (Cons a as)
  from Cons.IH [of "tr @ [Sent (GET u), Slept (2 ^ a)]"]
  show ?case by (auto split: sum.splits)
qed

lemma download_file_sends:
  "set tr \<subseteq> set (snd (download_file w u f tr)) \<and> Sent (GET u) \<in> set (snd (download_file w u f tr))"
proof -
  obtain g tr1 where g: "get_page w u 3 tr = (g, tr1)" by (cases "get_page w u 3 tr")
  from get_page_from_sends [of tr w u 3 "[0..<3]"] g
  have a: "set tr \<subseteq> set tr1" "Sent (GET u) \<in> set tr1"
    by (simp_all add: get_page_def range3 del: get_page_from.simps)
  have "set tr1 \<subseteq> set (snd (download_file w u f tr))"
    using g by (auto simp: download_file_def do_mkdir_def do_write_def split: sum.splits option.splits)
  with a show ?thesis by blast
qed

lemma download_part_adv:
  "advanced t (download_part v dc acc dir part t) 0 0 1
     {Sent (GET (download_url (base_url t) dc acc (dict_get part ''part'' (dict_get part ''value'' (Text [])))))}"
proof -
  define u where "u = download_url (base_url t) dc acc (dict_get part ''part'' (dict_get part ''value'' (Text [])))"
  define f where "f = Join dir (''ASDD_Part_'' @ str (dict_get part ''part'' (dict_get part ''value'' (Text []))) @ ''.pdf'')"
  obtain okay tr where d: "download_file v u f (trace t) = (okay, tr)" by (cases "download_file v u f (trace t)")
  from download_file_sends [of "trace t" v u f] d
  have a: "set (trace t) \<subseteq> set tr" "Sent (GET u) \<in> set tr" by simp_all
  have eq: "download_part v dc acc dir part t = t\<lparr>stats := count_download okay (stats t), trace := tr @ [Slept 0.5]\<rparr>"
    using d unfolding download_part_def Let_def u_def [symmetric] f_def [symmetric] by simp
  have "advanced t (t\<lparr>stats := count_download okay (stats t), trace := tr @ [Slept 0.5]\<rparr>) 0 0 1 {Sent (GET u)}"
    using a by (cases okay) (auto simp: advanced_def count_download_def)
  then show ?thesis unfolding eq u_def .
qed

lemma parts_loop_adv:
  "parts_loop v dc acc dir ps t = (None, t') \<Longrightarrow>
     length (objects ps) = length ps
     \<and> advanced t t' 0 0 (int (length ps))
         ((\<lambda>part. Sent (GET (download_url (base_url t) dc acc
                     (dict_get part ''part'' (dict_get part ''value'' (Text []))))))
            ` set (objects ps))"
proof (induction ps arbitrary: t)
  case Nil
  then show ?case by (simp add: advanced_def)
next
  case (Cons p ps)
  show ?case
  proof (cases p)
    case Not_object
    with Cons.prems show ?thesis by simp
  next
    case (Object part)
    let ?t1 = "download_part v dc acc dir part t"
    from Cons.prems Object have run: "parts_loop v dc acc dir ps ?t1 = (None, t')" by simp
    note a = download_part_adv [of t v dc acc dir part]
    from a have b: "base_url ?t1 = base_url t" by (simp add: advanced_def)
    from Cons.IH [OF run] b advanced_trans [OF a, of t' 0 0 "int (length ps)"] Object
    show ?thesis by (simp add: add.commute)
  qed
qed

lemma try_endpoints_steady:
  "steady v \<Longrightarrow> fst (try_endpoints v data es tr) = fst (try_endpoints v data es [])"
proof (induction es arbitrary: tr)
  case Nil
  then show ?case by simp
next
  case (Cons e es)
  from Cons.prems have h: "http v tr (POST e data) = http v [] (POST e data)"
    unfolding steady_def by blast
  from Cons.IH [OF Cons.prems, of "tr @ [Sent (POST e data)]"]
       Cons.IH [OF Cons.prems, of "[Sent (POST e data)]"] h
  show ?case by (auto split: sum.splits json_reply.splits)
qed

lemma try_endpoints_mono: "set tr \<subseteq> set (snd (try_endpoints v data es tr))"
  using try_endpoints_once [of es v data tr] by auto


lemma get_parts_steady:
  "steady v \<Longrightarrow> fst (get_parts v b dc a tr) = fst (get_parts v b dc a [])"
  unfolding get_parts_def by (rule try_endpoints_steady)

lemma get_constituencies_steady:
  "steady v \<Longrightarrow> fst (get_constituencies v b dc tr) = fst (get_constituencies v b dc [])"
  unfolding get_constituencies_def by (rule try_endpoints_steady)

lemma get_parts_mono: "set tr \<subseteq> set (snd (get_parts v b dc a tr))"
  unfolding get_parts_def by (rule try_endpoints_mono)

lemma get_constituencies_mono: "set tr \<subseteq> set (snd (get_constituencies v b dc tr))"
  unfolding get_constituencies_def by (rule try_endpoints_mono)

lemma process_ac_adv:
  assumes "steady v" and run: "process_ac v dc dir ac t = (None, t')"
  shows "\<exists>d. ac = Object d
           \<and> advanced t t' 0 (int (length (ac_urls v (base_url t) dc d))) (int (length (ac_urls v (base_url t) dc d)))
               ((\<lambda>u. Sent (GET u)) ` set (ac_urls v (base_url t) dc d))"
proof (cases ac)
  case Not_object
  with run show ?thesis by simp
next
  case (Object d)
  define ac_code where "ac_code = dict_get d ''value'' (dict_get d ''code'' (Text []))"
  obtain n where n: "dict_get d ''name'' (dict_get d ''text'' (Text ''Unknown'')) = Text n"
    using run Object by (cases "dict_get d ''name'' (dict_get d ''text'' (Text ''Unknown''))") (simp_all add: Let_def)
  obtain tr1 where m: "do_mkdir v (Join dir (sanitize_filename n)) False (trace t) = Inr tr1"
    using run Object n by (cases "do_mkdir v (Join dir (sanitize_filename n)) False (trace t)") (simp_all add: Let_def)
  obtain ps tr2 where g: "get_parts v (base_url t) dc ac_code tr1 = (ps, tr2)"
    by (cases "get_parts v (base_url t) dc ac_code tr1")
  define t2 where "t2 = t\<lparr>stats := (stats t)\<lparr>parts := parts (stats t) + int (length ps)\<rparr>, trace := tr2\<rparr>"
  from run Object n m g have loop: "parts_loop v dc ac_code (Join dir (sanitize_filename n)) ps t2 = (None, t')"
    by (simp add: Let_def ac_code_def t2_def)
  have ps: "ps = fst (get_parts v (base_url t) dc ac_code [])"
    using g get_parts_steady [OF assms(1), of "base_url t" dc ac_code tr1] by simp
  have tr: "set (trace t) \<subseteq> set tr2"
  proof -
    from m have "set (trace t) \<subseteq> set tr1" by (auto simp: do_mkdir_def split: option.splits)
    moreover have "set tr1 \<subseteq> set tr2"
      using g get_parts_mono [of tr1 v "base_url t" dc ac_code] by simp
    ultimately show ?thesis by blast
  qed
  note pl = parts_loop_adv [OF loop]
  have urls: "ac_urls v (base_url t) dc d
      = map (\<lambda>part. download_url (base_url t) dc ac_code (dict_get part ''part'' (dict_get part ''value'' (Text []))))
          (objects ps)"
    by (simp add: ac_urls_def Let_def ac_code_def [symmetric] ps)
  have len: "length (ac_urls v (base_url t) dc d) = length ps"
    using pl by (simp add: urls)
  have img: "(\<lambda>u. Sent (GET u)) ` set (ac_urls v (base_url t) dc d)
      = (\<lambda>part. Sent (GET (download_url (base_url t2) dc ac_code
                     (dict_get part ''part'' (dict_get part ''value'' (Text [])))))) ` set (objects ps)"
    by (simp add: urls image_image t2_def)
  from pl tr have "advanced t t' 0 (int (length ps)) (int (length ps))
      ((\<lambda>part. Sent (GET (download_url (base_url t2) dc ac_code
                     (dict_get part ''part'' (dict_get part ''value'' (Text [])))))) ` set (objects ps))"
    by (simp add: advanced_def t2_def) blast
  then show ?thesis using Object by (simp add: len img)
qed


lemma advanced_frame:
  "advanced t t' a n m E \<Longrightarrow> base_url t' = base_url t \<and> output_dir t' = output_dir t \<and> asd_url t' = asd_url t"
  by (simp add: advanced_def)

lemma ac_loop_adv:
  assumes "steady v"
  shows "ac_loop v dc dir acs t = (None, t') \<Longrightarrow>
     length (objects acs) = length acs
     \<and> advanced t t' 0 (int (length (concat (map (ac_urls v (base_url t) dc) (objects acs)))))
         (int (length (concat (map (ac_urls v (base_url t) dc) (objects acs)))))
         ((\<lambda>u. Sent (GET u)) ` set (concat (map (ac_urls v (base_url t) dc) (objects acs))))"
proof (induction acs arbitrary: t)
  case Nil
  then show ?case by (simp add: advanced_def)
next
  case (Cons ac acs)
  obtain r1 t1 where a: "process_ac v dc dir ac t = (r1, t1)" by (cases "process_ac v dc dir ac t")
  with Cons.prems have r1: "r1 = None" by (cases r1) simp_all
  with Cons.prems a have rest: "ac_loop v dc dir acs t1 = (None, t')" by simp
  from process_ac_adv [OF assms a [unfolded r1]] obtain d where d: "ac = Object d"
    and adv: "advanced t t1 0 (int (length (ac_urls v (base_url t) dc d))) (int (length (ac_urls v (base_url t) dc d)))
               ((\<lambda>u. Sent (GET u)) ` set (ac_urls v (base_url t) dc d))"
    by blast
  from advanced_frame [OF adv] have b: "base_url t1 = base_url t" by simp
  from Cons.IH [OF rest] have len: "length (objects acs) = length acs"
    and adv2: "advanced t1 t' 0 (int (length (concat (map (ac_urls v (base_url t) dc) (objects acs)))))
         (int (length (concat (map (ac_urls v (base_url t) dc) (objects acs)))))
         ((\<lambda>u. Sent (GET u)) ` set (concat (map (ac_urls v (base_url t) dc) (objects acs))))"
    by (simp_all add: b)
  from advanced_trans [OF adv adv2] len d show ?case by (simp add: image_Un)
qed

lemma process_district_adv:
  assumes "steady v" and run: "process_district v d t = (None, t')"
  shows "advanced t t' (int (length (fst (get_constituencies v (base_url t) (entry_value d) []))))
           (int (length (district_urls v (base_url t) d))) (int (length (district_urls v (base_url t) d)))
           (insert (Mkdir (Join (output_dir t) (sanitize_filename (name d))) False)
              ((\<lambda>u. Sent (GET u)) ` set (district_urls v (base_url t) d)))"
proof -
  let ?dir = "Join (output_dir t) (sanitize_filename (name d))"
  obtain tr1 where m: "do_mkdir v ?dir False (trace t) = Inr tr1"
    using run by (cases "do_mkdir v ?dir False (trace t)") (simp_all add: process_district_def Let_def)
  then have tr1: "tr1 = trace t @ [Mkdir ?dir False]" by (auto simp: do_mkdir_def split: option.splits)
  obtain acs tr2 where g: "get_constituencies v (base_url t) (entry_value d) tr1 = (acs, tr2)"
    by (cases "get_constituencies v (base_url t) (entry_value d) tr1")
  define t2 where "t2 = t\<lparr>stats := (stats t)\<lparr>constituencies := constituencies (stats t) + int (length acs)\<rparr>,
      trace := tr2\<rparr>"
  from run m g have loop: "ac_loop v (entry_value d) ?dir acs t2 = (None, t')"
    by (simp add: process_district_def Let_def t2_def)
  have acs: "acs = fst (get_constituencies v (base_url t) (entry_value d) [])"
    using g get_constituencies_steady [OF assms(1), of "base_url t" "entry_value d" tr1] by simp
  have tr: "set tr1 \<subseteq> set tr2"
    using g get_constituencies_mono [of tr1 v "base_url t" "entry_value d"] by simp
  from ac_loop_adv [OF assms(1) loop]
  have adv: "advanced t2 t' 0 (int (length (district_urls v (base_url t) d))) (int (length (district_urls v (base_url t) d)))
         ((\<lambda>u. Sent (GET u)) ` set (district_urls v (base_url t) d))"
    by (simp add: district_urls_def acs [symmetric] t2_def)
  from adv tr tr1 show ?thesis unfolding acs [symmetric]
    by (simp add: advanced_def t2_def) blast
qed

lemma district_loop_adv:
  assumes "steady v"
  shows "district_loop v ds t = (None, t') \<Longrightarrow>
     advanced t t' (int (length (listed_acs v (base_url t) ds)))
       (int (length (leaf_urls v (base_url t) ds))) (int (length (leaf_urls v (base_url t) ds)))
       ((\<lambda>d. Mkdir (Join (output_dir t) (sanitize_filename (name d))) False) ` set ds
          \<union> (\<lambda>u. Sent (GET u)) ` set (leaf_urls v (base_url t) ds))"
proof (induction ds arbitrary: t)
  case Nil
  then show ?case by (simp add: advanced_def listed_acs_def leaf_urls_def)
next
  case (Cons d ds)
  obtain r1 t1 where a: "process_district v d t = (r1, t1)" by (cases "process_district v d t")
  with Cons.prems have r1: "r1 = None" by (cases r1) simp_all
  with Cons.prems a have rest: "district_loop v ds t1 = (None, t')" by simp
  note adv = process_district_adv [OF assms a [unfolded r1]]
  from advanced_frame [OF adv] have b: "base_url t1 = base_url t" "output_dir t1 = output_dir t" by simp_all
  note adv2 = Cons.IH [OF rest, unfolded b]
  have "advanced t t'
      (int (length (fst (get_constituencies v (base_url t) (entry_value d) []))) + int (length (listed_acs v (base_url t) ds)))
      (int (length (district_urls v (base_url t) d)) + int (length (leaf_urls v (base_url t) ds)))
      (int (length (district_urls v (base_url t) d)) + int (length (leaf_urls v (base_url t) ds)))
      (insert (Mkdir (Join (output_dir t) (sanitize_filename (name d))) False)
              ((\<lambda>u. Sent (GET u)) ` set (district_urls v (base_url t) d))
       \<union> ((\<lambda>d. Mkdir (Join (output_dir t) (sanitize_filename (name d))) False) ` set ds
          \<union> (\<lambda>u. Sent (GET u)) ` set (leaf_urls v (base_url t) ds)))"
    by (rule advanced_trans [OF adv adv2])
  moreover have "insert (Mkdir (Join (output_dir t) (sanitize_filename (name d))) False)
              ((\<lambda>u. Sent (GET u)) ` set (district_urls v (base_url t) d))
       \<union> ((\<lambda>d. Mkdir (Join (output_dir t) (sanitize_filename (name d))) False) ` set ds
          \<union> (\<lambda>u. Sent (GET u)) ` set (leaf_urls v (base_url t) ds))
     = (\<lambda>d. Mkdir (Join (output_dir t) (sanitize_filename (name d))) False) ` set (d # ds)
          \<union> (\<lambda>u. Sent (GET u)) ` set (leaf_urls v (base_url t) (d # ds))"
    by (auto simp: leaf_urls_def)
  ultimately show ?case by (simp add: listed_acs_def leaf_urls_def)
qed

lemma download_all_adv:
  assumes "steady v" and g: "get_districts v (asd_url t) (trace t) = (ds, tr1)" and ne: "ds \<noteq> []"
    and run: "download_all v t = (None, t')"
  shows "districts (stats t') = int (length ds)
     \<and> constituencies (stats t') = constituencies (stats t) + int (length (listed_acs v (base_url t) ds))
     \<and> parts (stats t') = parts (stats t) + int (length (leaf_urls v (base_url t) ds))
     \<and> downloaded (stats t') + stats.failed (stats t')
         = downloaded (stats t) + stats.failed (stats t) + int (length (leaf_urls v (base_url t) ds))
     \<and> (\<forall>d\<in>set ds. Mkdir (Join (output_dir t) (sanitize_filename (name d))) False \<in> set (trace t'))
     \<and> (\<forall>u\<in>set (leaf_urls v (base_url t) ds). Sent (GET u) \<in> set (trace t'))
     \<and> Stats_printed (stats t') \<in> set (trace t')"
proof -
  define t1 where "t1 = t\<lparr>trace := tr1, stats := (stats t)\<lparr>districts := int (length ds)\<rparr>\<rparr>"
  obtain r t2 where l: "district_loop v ds t1 = (r, t2)" by (cases "district_loop v ds t1")
  from run g ne l have r: "r = None" by (cases r) (simp_all add: download_all_def t1_def)
  from run g ne l r have t': "t' = t2\<lparr>trace := trace t2 @ [Stats_printed (stats t2)]\<rparr>"
    by (simp add: download_all_def t1_def)
  from district_loop_adv [OF assms(1) l [unfolded r]] show ?thesis
    unfolding t' by (simp add: advanced_def t1_def) blast
qed


lemma process_ac_balance:
  assumes run: "process_ac w dc dir ac t = (None, t')"
  shows "balance (stats t') = balance (stats t)"
proof (cases ac)
  case Not_object
  with run show ?thesis by simp
next
  case (Object d)
  define ac_code where "ac_code = dict_get d ''value'' (dict_get d ''code'' (Text []))"
  obtain n where n: "dict_get d ''name'' (dict_get d ''text'' (Text ''Unknown'')) = Text n"
    using run Object by (cases "dict_get d ''name'' (dict_get d ''text'' (Text ''Unknown''))") (simp_all add: Let_def)
  obtain tr1 where m: "do_mkdir w (Join dir (sanitize_filename n)) False (trace t) = Inr tr1"
    using run Object n by (cases "do_mkdir w (Join dir (sanitize_filename n)) False (trace t)") (simp_all add: Let_def)
  obtain ps tr2 where g: "get_parts w (base_url t) dc ac_code tr1 = (ps, tr2)"
    by (cases "get_parts w (base_url t) dc ac_code tr1")
  define t2 where "t2 = t\<lparr>stats := (stats t)\<lparr>parts := parts (stats t) + int (length ps)\<rparr>, trace := tr2\<rparr>"
  from run Object n m g have loop: "parts_loop w dc ac_code (Join dir (sanitize_filename n)) ps t2 = (None, t')"
    by (simp add: Let_def ac_code_def t2_def)
  from parts_loop_adv [OF loop] show ?thesis by (simp add: advanced_def balance_def t2_def)
qed

lemma ac_loop_balance:
  "ac_loop w dc dir acs t = (None, t') \<Longrightarrow> balance (stats t') = balance (stats t)"
proof (induction acs arbitrary: t)
  case Nil
  then show ?case by simp
next
  case (Cons ac acs)
  obtain r1 t1 where a: "process_ac w dc dir ac t = (r1, t1)" by (cases "process_ac w dc dir ac t")
  with Cons.prems have r1: "r1 = None" by (cases r1) simp_all
  with Cons.prems a have "ac_loop w dc dir acs t1 = (None, t')" by simp
  from Cons.IH [OF this] process_ac_balance [OF a [unfolded r1]] show ?case by simp
qed

lemma process_district_balance:
  assumes run: "process_district w d t = (None, t')"
  shows "balance (stats t') = balance (stats t)"
proof -
  let ?dir = "Join (output_dir t) (sanitize_filename (name d))"
  obtain tr1 where m: "do_mkdir w ?dir False (trace t) = Inr tr1"
    using run by (cases "do_mkdir w ?dir False (trace t)") (simp_all add: process_district_def Let_def)
  obtain acs tr2 where g: "get_constituencies w (base_url t) (entry_value d) tr1 = (acs, tr2)"
    by (cases "get_constituencies w (base_url t) (entry_value d) tr1")
  define t2 where "t2 = t\<lparr>stats := (stats t)\<lparr>constituencies := constituencies (stats t) + int (length acs)\<rparr>,
      trace := tr2\<rparr>"
  from run m g have "ac_loop w (entry_value d) ?dir acs t2 = (None, t')"
    by (simp add: process_district_def Let_def t2_def)
  from ac_loop_balance [OF this] show ?thesis by (simp add: balance_def t2_def)
qed

lemma district_loop_balance:
  "district_loop w ds t = (None, t') \<Longrightarrow> balance (stats t') = balance (stats t)"
proof (induction ds arbitrary: t)
  case Nil
  then show ?case by simp
next
  case (Cons d ds)
  obtain r1 t1 where a: "process_district w d t = (r1, t1)" by (cases "process_district w d t")
  with Cons.prems have r1: "r1 = None" by (cases r1) simp_all
  with Cons.prems a have "district_loop w ds t1 = (None, t')" by simp
  from Cons.IH [OF this] process_district_balance [OF a [unfolded r1]] show ?case by simp
qed

lemma download_all_balance:
  assumes "fst (get_districts w (asd_url t) (trace t)) \<noteq> []" and run: "download_all w t = (None, t')"
  shows "balance (stats t') = balance (stats t)"
proof -
  obtain ds tr1 where g: "get_districts w (asd_url t) (trace t) = (ds, tr1)"
    by (cases "get_districts w (asd_url t) (trace t)")
  with assms have ne: "ds \<noteq> []" by simp
  define t1 where "t1 = t\<lparr>trace := tr1, stats := (stats t)\<lparr>districts := int (length ds)\<rparr>\<rparr>"
  obtain r t2 where l: "district_loop w ds t1 = (r, t2)" by (cases "district_loop w ds t1")
  from run g ne l have r: "r = None" by (cases r) (simp_all add: download_all_def t1_def)
  from run g ne l r have t': "t' = t2\<lparr>trace := trace t2 @ [Stats_printed (stats t2)]\<rparr>"
    by (simp add: download_all_def t1_def)
  from district_loop_balance [OF l [unfolded r]] show ?thesis
    unfolding t' by (simp add: t1_def balance_def)
qed

lemma first_endpoint:
  "http v tr (POST e data) = Inr r \<Longrightarrow> status_code r = 200 \<Longrightarrow> json v (content r) = Json_list xs \<Longrightarrow> xs \<noteq> []
     \<Longrightarrow> try_endpoints v data (e # es) tr = (xs, tr @ [Sent (POST e data)])"
  by simp


lemma download_part_stats:
  "stats (download_part w dc acc dir part t)
     = count_download
         (fst (download_file w
            (download_url (base_url t) dc acc (dict_get part ''part'' (dict_get part ''value'' (Text []))))
            (Join dir (''ASDD_Part_'' @ str (dict_get part ''part'' (dict_get part ''value'' (Text []))) @ ''.pdf''))
            (trace t)))
         (stats t)"
  by (simp add: download_part_def Let_def split: prod.splits)

lemma process_part_covers:
  "process_part w dn an p s = (r, s') \<Longrightarrow>
     insert (ledger_key dn an (name p)) (set (completed (progress s)) \<union> set (progress.failed (progress s)))
       \<subseteq> set (completed (progress s')) \<union> set (progress.failed (progress s'))"
  using process_part_marks [of w dn an p s r s'] by (auto simp: mark_def split: if_splits)

text \<open>
  C8. In both downloaders a district whose constituency enumeration is empty costs its
  directory (and, over HTTP, the enumeration requests) and nothing else: the loop goes on
  with the districts that follow, from the same counters and ledger. A leaf whose fetch
  fails is counted in \<open>failed\<close> (and, in the browser downloader, appended to the
  ledger's \<open>failed\<close> list; the requests downloader keeps no ledger), and the loop goes
  on with the next leaf. Over a run of the browser downloader that returns, every
  enumerated leaf ends in the ledger, completed or failed.

  For the requests downloader: an enumeration returns the list that its first endpoint
  answers; every part that is an object is requested and counted, as downloaded when
  \<open>download_file\<close> succeeds and as failed otherwise, and the loop goes on. Over a run
  that returns, on a portal whose enumerations do not depend on the history, the
  directory of every district is made, every constituency and every part enumerated for
  every district is counted, the document of every part is requested, and as many
  downloads are settled, as downloaded or failed, as there are parts. On any portal, a
  run that returns has settled every part it counted.
\<close>

theorem partial_failure_isolation:
  fixes w :: "'a browser_world_scheme" and v :: "'b http_world_scheme"
  shows
  "(constituencies_found w (entry_value d) = []
      \<and> mkdir w (trace s) (Join (output_dir s) (sanitize_filename (name d))) False = None
     \<longrightarrow> district_loop_sel w (d # rest) s
          = district_loop_sel w rest
              (s\<lparr>trace := trace s @ [Mkdir (Join (output_dir s) (sanitize_filename (name d))) False]\<rparr>))
   \<and> (ledger_key dn an (name p) \<notin> set (completed (progress s))
      \<and> \<not> part_downloaded w (trace s) (dn, an, entry_value p, name p)
      \<and> process_part w dn an p s = (None, s1)
     \<longrightarrow> stats s1 = (stats s)\<lparr>stats.failed := stats.failed (stats s) + 1\<rparr>
         \<and> progress s1 = (progress s)\<lparr>progress.failed := progress.failed (progress s) @ [ledger_key dn an (name p)]\<rparr>
         \<and> part_loop w dn an (p # ps) s = part_loop w dn an ps s1)
   \<and> (download_all_sel w td s = (None, s2)
     \<longrightarrow> set (enumerated_keys w (districts_of_run w td))
           \<subseteq> set (completed (progress s2)) \<union> set (progress.failed (progress s2)))
   \<and> (do_mkdir v (Join (output_dir t) (sanitize_filename (name d))) False (trace t) = Inr tr1
      \<and> get_constituencies v (base_url t) (entry_value d) tr1 = ([], tr2)
     \<longrightarrow> district_loop v (d # rest) t = district_loop v rest (t\<lparr>trace := tr2\<rparr>))
   \<and> (http v tr (POST (b @ ''/api/getAC'') [(''district'', Text dc)]) = Inr r
      \<and> status_code r = 200 \<and> json v (content r) = Json_list xs \<and> xs \<noteq> []
     \<longrightarrow> get_constituencies v b dc tr
          = (xs, tr @ [Sent (POST (b @ ''/api/getAC'') [(''district'', Text dc)])]))
   \<and> (http v tr (POST (b @ ''/api/getParts'') [(''district'', Text dc), (''ac'', acc)]) = Inr r
      \<and> status_code r = 200 \<and> json v (content r) = Json_list xs \<and> xs \<noteq> []
     \<longrightarrow> get_parts v b dc acc tr
          = (xs, tr @ [Sent (POST (b @ ''/api/getParts'') [(''district'', Text dc), (''ac'', acc)])]))
   \<and> parts_loop v dc acc dir (Object part # others) t
       = parts_loop v dc acc dir others (download_part v dc acc dir part t)
   \<and> Sent (GET (download_url (base_url t) dc acc (dict_get part ''part'' (dict_get part ''value'' (Text [])))))
       \<in> set (trace (download_part v dc acc dir part t))
   \<and> (\<not> fst (download_file v
            (download_url (base_url t) dc acc (dict_get part ''part'' (dict_get part ''value'' (Text []))))
            (Join dir (''ASDD_Part_'' @ str (dict_get part ''part'' (dict_get part ''value'' (Text []))) @ ''.pdf''))
            (trace t))
     \<longrightarrow> stats (download_part v dc acc dir part t) = (stats t)\<lparr>stats.failed := stats.failed (stats t) + 1\<rparr>)
   \<and> (fst (download_file v
            (download_url (base_url t) dc acc (dict_get part ''part'' (dict_get part ''value'' (Text []))))
            (Join dir (''ASDD_Part_'' @ str (dict_get part ''part'' (dict_get part ''value'' (Text []))) @ ''.pdf''))
            (trace t))
     \<longrightarrow> stats (download_part v dc acc dir part t) = (stats t)\<lparr>downloaded := downloaded (stats t) + 1\<rparr>)
   \<and> (steady v \<and> get_districts v (asd_url t) (trace t) = (ds, tr1) \<and> ds \<noteq> []
      \<and> download_all v t = (None, t')
     \<longrightarrow> districts (stats t') = int (length ds)
         \<and> constituencies (stats t') = constituencies (stats t) + int (length (listed_acs v (base_url t) ds))
         \<and> parts (stats t') = parts (stats t) + int (length (leaf_urls v (base_url t) ds))
         \<and> downloaded (stats t') + stats.failed (stats t')
             = downloaded (stats t) + stats.failed (stats t) + int (length (leaf_urls v (base_url t) ds))
         \<and> (\<forall>d\<in>set ds. Mkdir (Join (output_dir t) (sanitize_filename (name d))) False \<in> set (trace t'))
         \<and> (\<forall>u\<in>set (leaf_urls v (base_url t) ds). Sent (GET u) \<in> set (trace t')))
   \<and> (fst (get_districts v (asd_url t) (trace t)) \<noteq> [] \<and> download_all v t = (None, t')
     \<longrightarrow> downloaded (stats t') + stats.failed (stats t') - parts (stats t')
         = downloaded (stats t) + stats.failed (stats t) - parts (stats t))"
proof -
  have s_skip: "district_loop_sel w (d # rest) s
          = district_loop_sel w rest
              (s\<lparr>trace := trace s @ [Mkdir (Join (output_dir s) (sanitize_filename (name d))) False]\<rparr>)"
    if "constituencies_found w (entry_value d) = []"
      and "mkdir w (trace s) (Join (output_dir s) (sanitize_filename (name d))) False = None"
    using that
    by (simp add: process_district_sel_def get_constituencies_sel_def do_mkdir_def)
  have s_fail: "stats s1 = (stats s)\<lparr>stats.failed := stats.failed (stats s) + 1\<rparr>
         \<and> progress s1 = (progress s)\<lparr>progress.failed := progress.failed (progress s) @ [ledger_key dn an (name p)]\<rparr>
         \<and> part_loop w dn an (p # ps) s = part_loop w dn an ps s1"
    if "ledger_key dn an (name p) \<notin> set (completed (progress s))"
      and "\<not> part_downloaded w (trace s) (dn, an, entry_value p, name p)"
      and "process_part w dn an p s = (None, s1)"
    using process_part_trace [OF that(3)] that by (auto simp: mark_def count_download_def)
  have s_all: "set (enumerated_keys w (districts_of_run w td))
           \<subseteq> set (completed (progress s2)) \<union> set (progress.failed (progress s2))"
    if "download_all_sel w td s = (None, s2)"
    using download_all_sel_covers [where f = "\<lambda>p. set (completed p) \<union> set (progress.failed p)", OF _ that]
      process_part_covers
    by blast
  have d_skip: "district_loop v (d # rest) t = district_loop v rest (t\<lparr>trace := tr2\<rparr>)"
    if "do_mkdir v (Join (output_dir t) (sanitize_filename (name d))) False (trace t) = Inr tr1"
      and "get_constituencies v (base_url t) (entry_value d) tr1 = ([], tr2)"
    using that by (simp add: process_district_def)
  have d_acs: "get_constituencies v b dc tr
          = (xs, tr @ [Sent (POST (b @ ''/api/getAC'') [(''district'', Text dc)])])"
    if "http v tr (POST (b @ ''/api/getAC'') [(''district'', Text dc)]) = Inr r"
      and "status_code r = 200" and "json v (content r) = Json_list xs" and "xs \<noteq> []"
    unfolding get_constituencies_def using that by (rule first_endpoint)
  have d_parts: "get_parts v b dc acc tr
          = (xs, tr @ [Sent (POST (b @ ''/api/getParts'') [(''district'', Text dc), (''ac'', acc)])])"
    if "http v tr (POST (b @ ''/api/getParts'') [(''district'', Text dc), (''ac'', acc)]) = Inr r"
      and "status_code r = 200" and "json v (content r) = Json_list xs" and "xs \<noteq> []"
    unfolding get_parts_def using that by (rule first_endpoint)
  have d_next: "parts_loop v dc acc dir (Object part # others) t
       = parts_loop v dc acc dir others (download_part v dc acc dir part t)"
    by simp
  have d_sent: "Sent (GET (download_url (base_url t) dc acc (dict_get part ''part'' (dict_get part ''value'' (Text [])))))
       \<in> set (trace (download_part v dc acc dir part t))"
    using download_part_adv [of t v dc acc dir part] by (simp add: advanced_def)
  have d_fail: "stats (download_part v dc acc dir part t) = (stats t)\<lparr>stats.failed := stats.failed (stats t) + 1\<rparr>"
    if "\<not> fst (download_file v
            (download_url (base_url t) dc acc (dict_get part ''part'' (dict_get part ''value'' (Text []))))
            (Join dir (''ASDD_Part_'' @ str (dict_get part ''part'' (dict_get part ''value'' (Text []))) @ ''.pdf''))
            (trace t))"
    using that unfolding download_part_stats by (simp add: count_download_def)
  have d_good: "stats (download_part v dc acc dir part t) = (stats t)\<lparr>downloaded := downloaded (stats t) + 1\<rparr>"
    if "fst (download_file v
            (download_url (base_url t) dc acc (dict_get part ''part'' (dict_get part ''value'' (Text []))))
            (Join dir (''ASDD_Part_'' @ str (dict_get part ''part'' (dict_get part ''value'' (Text []))) @ ''.pdf''))
            (trace t))"
    using that unfolding download_part_stats by (simp add: count_download_def)
  have d_run: "districts (stats t') = int (length ds)
         \<and> constituencies (stats t') = constituencies (stats t) + int (length (listed_acs v (base_url t) ds))
         \<and> parts (stats t') = parts (stats t) + int (length (leaf_urls v (base_url t) ds))
         \<and> downloaded (stats t') + stats.failed (stats t')
             = downloaded (stats t) + stats.failed (stats t) + int (length (leaf_urls v (base_url t) ds))
         \<and> (\<forall>d\<in>set ds. Mkdir (Join (output_dir t) (sanitize_filename (name d))) False \<in> set (trace t'))
         \<and> (\<forall>u\<in>set (leaf_urls v (base_url t) ds). Sent (GET u) \<in> set (trace t'))"
    if "steady v" and "get_districts v (asd_url t) (trace t) = (ds, tr1)" and "ds \<noteq> []"
      and "download_all v t = (None, t')"
    using download_all_adv [OF that] by blast
  have d_all: "downloaded (stats t') + stats.failed (stats t') - parts (stats t')
         = downloaded (stats t) + stats.failed (stats t) - parts (stats t)"
    if "fst (get_districts v (asd_url t) (trace t)) \<noteq> []" and "download_all v t = (None, t')"
    using download_all_balance [OF that] by (simp add: balance_def)
  show ?thesis
    apply (intro conjI)
    subgoal using s_skip by blast
    subgoal using s_fail by blast
    subgoal using s_all by blast
    subgoal using d_skip by blast
    subgoal using d_acs by blast
    subgoal using d_parts by blast
    subgoal by (rule d_next)
    subgoal by (rule d_sent)
    subgoal using d_fail by blast
    subgoal using d_good by blast
    subgoal using d_run by blast
    subgoal using d_all by blast
    done
qed


lemma small_run:
  "download_all small_portal fresh_downloader
     = (None,
        fresh_downloader
          \<lparr>stats := \<lparr>districts = 2, constituencies = 1, parts = 2, downloaded = 1, failed = 1\<rparr>,
           trace :=
             [Mkdir (Path ''out'') False,
              Sent (GET ''B/asd_sir''),
              Mkdir (Join (Path ''out'') ''North'') False,
              Sent (POST ''B/api/getAC'' [(''district'', Text ''1'')]),
              Sent (POST ''B/api/getConstituencies'' [(''district'', Text ''1'')]),
              Sent (POST ''B/getAC.php'' [(''district'', Text ''1'')]),
              Sent (POST ''B/getConstituency.php'' [(''district'', Text ''1'')]),
              Mkdir (Join (Path ''out'') ''South'') False,
              Sent (POST ''B/api/getAC'' [(''district'', Text ''2'')]),
              Mkdir (Join (Join (Path ''out'') ''South'') ''AC_ Seven'') False,
              Sent (POST ''B/api/getParts'' [(''district'', Text ''2''), (''ac'', Text ''7'')]),
              Sent (GET ''B/asd_download.php?district=2&ac=7&part=1''),
              Mkdir (Parent (Join (Join (Join (Path ''out'') ''South'') ''AC_ Seven'') ''ASDD_Part_1.pdf'')) True,
              Wrote (Join (Join (Join (Path ''out'') ''South'') ''AC_ Seven'') ''ASDD_Part_1.pdf'') ''%PDF-1'',
              Slept 0.5,
              Sent (GET ''B/asd_download.php?district=2&ac=7&part=2''), Slept 1,
              Sent (GET ''B/asd_download.php?district=2&ac=7&part=2''), Slept 2,
              Sent (GET ''B/asd_download.php?district=2&ac=7&part=2''),
              Slept 0.5,
              Stats_printed \<lparr>districts = 2, constituencies = 1, parts = 2, downloaded = 1, failed = 1\<rparr>]\<rparr>)"
  by (simp add: fresh_downloader_def small_portal_def run_defs
        process_district_def download_part_def download_url_def get_constituencies_def get_parts_def
        dict_get_def)

lemma small_portal_steady: "steady small_portal"
  by (simp add: steady_def small_portal_def stub_world_def flaky_def)

lemma small_portal_leaves:
  "leaf_urls small_portal ''B'' [\<lparr>entry_value = ''1'', name = ''North''\<rparr>, \<lparr>entry_value = ''2'', name = ''South''\<rparr>]
     = [''B/asd_download.php?district=2&ac=7&part=1'', ''B/asd_download.php?district=2&ac=7&part=2'']
   \<and> listed_acs small_portal ''B'' [\<lparr>entry_value = ''1'', name = ''North''\<rparr>, \<lparr>entry_value = ''2'', name = ''South''\<rparr>]
     = [Object [(''name'', Text ''AC: Seven''), (''value'', Text ''7'')]]"
  by (simp add: leaf_urls_def listed_acs_def district_urls_def ac_urls_def download_url_def
        get_constituencies_def get_parts_def small_portal_def stub_world_def flaky_def ok_response_def
        dict_get_def Let_def)

theorem partial_failure_isolation_witness:
  "district_loop_sel (tiny_site [] []) [\<lparr>entry_value = ''2'', name = ''South''\<rparr>]
       (fresh_selenium_downloader \<lparr>completed = [], failed = []\<rparr>)
     = (None, (fresh_selenium_downloader \<lparr>completed = [], failed = []\<rparr>)
          \<lparr>trace := [Mkdir (Path ''out'') False, Mkdir (Join (Path ''out'') ''South'') False]\<rparr>)
   \<and> stats (snd (process_part (tiny_site [(''North'', ''AC Seven'', ''102'', ''P2'')] []) ''North'' ''AC Seven''
        \<lparr>entry_value = ''102'', name = ''P2''\<rparr>
        (fresh_selenium_downloader \<lparr>completed = [''North|AC Seven|P1''], failed = []\<rparr>)))
       = zero_stats\<lparr>stats.failed := 1\<rparr>
   \<and> progress (snd (process_part (tiny_site [(''North'', ''AC Seven'', ''102'', ''P2'')] []) ''North'' ''AC Seven''
        \<lparr>entry_value = ''102'', name = ''P2''\<rparr>
        (fresh_selenium_downloader \<lparr>completed = [''North|AC Seven|P1''], failed = []\<rparr>)))
       = \<lparr>completed = [''North|AC Seven|P1''], failed = [''North|AC Seven|P2'']\<rparr>
   \<and> fst (download_all_sel (tiny_site [(''North'', ''AC Seven'', ''101'', ''P1'')] []) None
        (fresh_selenium_downloader \<lparr>completed = [], failed = []\<rparr>)) = None
   \<and> set [''North|AC Seven|P1'', ''North|AC Seven|P2'']
       \<subseteq> set (completed (progress (snd (download_all_sel (tiny_site [(''North'', ''AC Seven'', ''101'', ''P1'')] []) None
              (fresh_selenium_downloader \<lparr>completed = [], failed = []\<rparr>)))))
         \<union> set (progress.failed (progress (snd (download_all_sel (tiny_site [(''North'', ''AC Seven'', ''101'', ''P1'')] []) None
              (fresh_selenium_downloader \<lparr>completed = [], failed = []\<rparr>)))))
   \<and> district_loop small_portal [\<lparr>entry_value = ''1'', name = ''North''\<rparr>] fresh_downloader
     = (None, fresh_downloader
          \<lparr>trace := [Mkdir (Path ''out'') False,
                     Mkdir (Join (Path ''out'') ''North'') False,
                     Sent (POST ''B/api/getAC'' [(''district'', Text ''1'')]),
                     Sent (POST ''B/api/getConstituencies'' [(''district'', Text ''1'')]),
                     Sent (POST ''B/getAC.php'' [(''district'', Text ''1'')]),
                     Sent (POST ''B/getConstituency.php'' [(''district'', Text ''1'')])]\<rparr>)
   \<and> get_constituencies small_portal ''B'' ''2'' []
     = ([Object [(''name'', Text ''AC: Seven''), (''value'', Text ''7'')]],
        [Sent (POST ''B/api/getAC'' [(''district'', Text ''2'')])])
   \<and> get_parts small_portal ''B'' ''2'' (Text ''7'') []
     = ([Object [(''part'', Text ''1'')], Object [(''part'', Other ''2'')]],
        [Sent (POST ''B/api/getParts'' [(''district'', Text ''2''), (''ac'', Text ''7'')])])
   \<and> stats (download_part small_portal ''2'' (Text ''7'') (Path ''out'') [(''part'', Other ''2'')] fresh_downloader)
       = zero_stats\<lparr>stats.failed := 1\<rparr>
   \<and> stats (download_part small_portal ''2'' (Text ''7'') (Path ''out'') [(''part'', Text ''1'')] fresh_downloader)
       = zero_stats\<lparr>downloaded := 1\<rparr>
   \<and> fst (download_all small_portal fresh_downloader) = None
   \<and> districts (stats (snd (download_all small_portal fresh_downloader))) = 2
   \<and> constituencies (stats (snd (download_all small_portal fresh_downloader))) = 1
   \<and> parts (stats (snd (download_all small_portal fresh_downloader))) = 2
   \<and> downloaded (stats (snd (download_all small_portal fresh_downloader)))
       + stats.failed (stats (snd (download_all small_portal fresh_downloader))) = 2
   \<and> stats.failed (stats (snd (download_all small_portal fresh_downloader))) = 1
   \<and> set [Mkdir (Join (Path ''out'') ''North'') False, Mkdir (Join (Path ''out'') ''South'') False,
           Sent (GET ''B/asd_download.php?district=2&ac=7&part=1''),
           Sent (GET ''B/asd_download.php?district=2&ac=7&part=2'')]
       \<subseteq> set (trace (snd (download_all small_portal fresh_downloader)))
   \<and> downloaded (stats (snd (download_all small_portal fresh_downloader)))
         + stats.failed (stats (snd (download_all small_portal fresh_downloader)))
         - parts (stats (snd (download_all small_portal fresh_downloader))) = 0"
proof -
  let ?w = "tiny_site [] []"
  let ?wb = "tiny_site [(''North'', ''AC Seven'', ''102'', ''P2'')] []"
  let ?wa = "tiny_site [(''North'', ''AC Seven'', ''101'', ''P1'')] []"
  let ?s = "fresh_selenium_downloader \<lparr>completed = [], failed = []\<rparr>"
  let ?s1 = "fresh_selenium_downloader \<lparr>completed = [''North|AC Seven|P1''], failed = []\<rparr>"
  let ?south = "\<lparr>entry_value = ''2'', name = ''South''\<rparr>"
  let ?north = "\<lparr>entry_value = ''1'', name = ''North''\<rparr>"
  let ?p2 = "\<lparr>entry_value = ''102'', name = ''P2''\<rparr>"
  let ?t' = "snd (download_all small_portal fresh_downloader)"
  note th = partial_failure_isolation [where w = ?w and d = ?south and s = ?s and rest = "[]"]
  have 1: "district_loop_sel ?w [?south] ?s
     = (None, ?s\<lparr>trace := [Mkdir (Path ''out'') False, Mkdir (Join (Path ''out'') ''South'') False]\<rparr>)"
  proof -
    have "constituencies_found ?w (entry_value ?south) = []"
      "mkdir ?w (trace ?s) (Join (output_dir ?s) (sanitize_filename (name ?south))) False = None"
      by (simp_all add: tiny_site_def stub_browser_def)
    with th [THEN conjunct1]
    have "district_loop_sel ?w [?south] ?s = district_loop_sel ?w []
        (?s\<lparr>trace := trace ?s @ [Mkdir (Join (output_dir ?s) (sanitize_filename (name ?south))) False]\<rparr>)"
      by blast
    then show ?thesis by (simp add: sel_defs)
  qed
  obtain r2 s2 where pp: "process_part ?wb ''North'' ''AC Seven'' ?p2 ?s1 = (r2, s2)"
    by (cases "process_part ?wb ''North'' ''AC Seven'' ?p2 ?s1")
  have r2: "r2 = None" using pp by (simp add: sel_defs)
  have 2: "stats s2 = zero_stats\<lparr>stats.failed := 1\<rparr>
      \<and> progress s2 = \<lparr>completed = [''North|AC Seven|P1''], failed = [''North|AC Seven|P2'']\<rparr>"
  proof -
    have "ledger_key ''North'' ''AC Seven'' (name ?p2) \<notin> set (completed (progress ?s1))"
      "\<not> part_downloaded ?wb (trace ?s1) (''North'', ''AC Seven'', entry_value ?p2, name ?p2)"
      by (simp_all add: ledger_key_def fresh_selenium_downloader_def tiny_site_def stub_browser_def)
    with partial_failure_isolation [where w = ?wb and dn = "''North''" and an = "''AC Seven''" and p = ?p2
        and s = ?s1 and ?s1.0 = s2, THEN conjunct2, THEN conjunct1] pp r2
    have "stats s2 = (stats ?s1)\<lparr>stats.failed := stats.failed (stats ?s1) + 1\<rparr>
         \<and> progress s2 = (progress ?s1)\<lparr>progress.failed := progress.failed (progress ?s1)
               @ [ledger_key ''North'' ''AC Seven'' (name ?p2)]\<rparr>"
      by blast
    then show ?thesis
      by (simp add: fresh_selenium_downloader_def zero_stats_def ledger_key_def)
  qed
  have n3: "fst (download_all_sel ?wa None ?s) = None" by (simp add: sel_defs)
  have 3: "set [''North|AC Seven|P1'', ''North|AC Seven|P2'']
       \<subseteq> set (completed (progress (snd (download_all_sel ?wa None ?s))))
         \<union> set (progress.failed (progress (snd (download_all_sel ?wa None ?s))))"
  proof -
    from n3 have "download_all_sel ?wa None ?s = (None, snd (download_all_sel ?wa None ?s))"
      by (simp add: prod_eq_iff)
    with partial_failure_isolation [where w = ?wa and td = None and s = ?s
        and ?s2.0 = "snd (download_all_sel ?wa None ?s)", THEN conjunct2, THEN conjunct2, THEN conjunct1]
    have "set (enumerated_keys ?wa (districts_of_run ?wa None))
           \<subseteq> set (completed (progress (snd (download_all_sel ?wa None ?s))))
             \<union> set (progress.failed (progress (snd (download_all_sel ?wa None ?s))))"
      by blast
    moreover have "enumerated_keys ?wa (districts_of_run ?wa None)
        = [''North|AC Seven|P1'', ''North|AC Seven|P2'']"
      by (simp add: enumerated_keys_def districts_of_run_def sel_defs)
    ultimately show ?thesis by simp
  qed
  have 4: "district_loop small_portal [?north] fresh_downloader
     = (None, fresh_downloader
          \<lparr>trace := [Mkdir (Path ''out'') False,
                     Mkdir (Join (Path ''out'') ''North'') False,
                     Sent (POST ''B/api/getAC'' [(''district'', Text ''1'')]),
                     Sent (POST ''B/api/getConstituencies'' [(''district'', Text ''1'')]),
                     Sent (POST ''B/getAC.php'' [(''district'', Text ''1'')]),
                     Sent (POST ''B/getConstituency.php'' [(''district'', Text ''1'')])]\<rparr>)"
  proof -
    let ?tr1 = "[Mkdir (Path ''out'') False, Mkdir (Join (Path ''out'') ''North'') False]"
    let ?tr2 = "?tr1 @ [Sent (POST ''B/api/getAC'' [(''district'', Text ''1'')]),
                     Sent (POST ''B/api/getConstituencies'' [(''district'', Text ''1'')]),
                     Sent (POST ''B/getAC.php'' [(''district'', Text ''1'')]),
                     Sent (POST ''B/getConstituency.php'' [(''district'', Text ''1'')])]"
    have "do_mkdir small_portal (Join (output_dir fresh_downloader) (sanitize_filename (name ?north))) False
        (trace fresh_downloader) = Inr ?tr1"
      "get_constituencies small_portal (base_url fresh_downloader) (entry_value ?north) ?tr1 = ([], ?tr2)"
      by (simp_all add: fresh_downloader_def small_portal_def run_defs get_constituencies_def)
    with partial_failure_isolation [where v = small_portal and t = fresh_downloader
        and d = ?north and ?tr1.0 = ?tr1 and ?tr2.0 = ?tr2 and rest = "[]",
        THEN conjunct2, THEN conjunct2, THEN conjunct2, THEN conjunct1]
    have "district_loop small_portal [?north] fresh_downloader
        = district_loop small_portal [] (fresh_downloader\<lparr>trace := ?tr2\<rparr>)"
      by blast
    then show ?thesis by simp
  qed
  have 5: "get_constituencies small_portal ''B'' ''2'' []
     = ([Object [(''name'', Text ''AC: Seven''), (''value'', Text ''7'')]],
        [Sent (POST ''B/api/getAC'' [(''district'', Text ''2'')])])"
  proof -
    let ?xs = "[Object [(''name'', Text ''AC: Seven''), (''value'', Text ''7'')]]"
    have "http small_portal [] (POST (''B'' @ ''/api/getAC'') [(''district'', Text ''2'')]) = Inr (ok_response ''acs2'')"
      "status_code (ok_response ''acs2'') = 200"
      "json small_portal (content (ok_response ''acs2'')) = Json_list ?xs" "?xs \<noteq> []"
      by (simp_all add: small_portal_def stub_world_def flaky_def ok_response_def sent_def)
    with partial_failure_isolation [where v = small_portal and b = "''B''" and dc = "''2''" and tr = "[]"
        and r = "ok_response ''acs2''" and xs = ?xs,
        THEN conjunct2, THEN conjunct2, THEN conjunct2, THEN conjunct2, THEN conjunct1]
    have "get_constituencies small_portal ''B'' ''2'' []
        = (?xs, [] @ [Sent (POST (''B'' @ ''/api/getAC'') [(''district'', Text ''2'')])])"
      by blast
    then show ?thesis by simp
  qed
  have 6: "get_parts small_portal ''B'' ''2'' (Text ''7'') []
     = ([Object [(''part'', Text ''1'')], Object [(''part'', Other ''2'')]],
        [Sent (POST ''B/api/getParts'' [(''district'', Text ''2''), (''ac'', Text ''7'')])])"
  proof -
    let ?xs = "[Object [(''part'', Text ''1'')], Object [(''part'', Other ''2'')]]"
    have "http small_portal [] (POST (''B'' @ ''/api/getParts'') [(''district'', Text ''2''), (''ac'', Text ''7'')])
        = Inr (ok_response ''parts7'')"
      "status_code (ok_response ''parts7'') = 200"
      "json small_portal (content (ok_response ''parts7'')) = Json_list ?xs" "?xs \<noteq> []"
      by (simp_all add: small_portal_def stub_world_def flaky_def ok_response_def sent_def)
    with partial_failure_isolation [where v = small_portal and b = "''B''" and dc = "''2''"
        and acc = "Text ''7''" and tr = "[]" and r = "ok_response ''parts7''" and xs = ?xs,
        THEN conjunct2, THEN conjunct2, THEN conjunct2, THEN conjunct2, THEN conjunct2, THEN conjunct1]
    have "get_parts small_portal ''B'' ''2'' (Text ''7'') []
        = (?xs, [] @ [Sent (POST (''B'' @ ''/api/getParts'') [(''district'', Text ''2''), (''ac'', Text ''7'')])])"
      by blast
    then show ?thesis by simp
  qed
  have 7: "stats (download_part small_portal ''2'' (Text ''7'') (Path ''out'') [(''part'', Other ''2'')] fresh_downloader)
       = zero_stats\<lparr>stats.failed := 1\<rparr>"
  proof -
    have "\<not> fst (download_file small_portal
        (download_url (base_url fresh_downloader) ''2'' (Text ''7'')
           (dict_get [(''part'', Other ''2'')] ''part'' (dict_get [(''part'', Other ''2'')] ''value'' (Text []))))
        (Join (Path ''out'') (''ASDD_Part_'' @ str (dict_get [(''part'', Other ''2'')] ''part''
            (dict_get [(''part'', Other ''2'')] ''value'' (Text []))) @ ''.pdf''))
        (trace fresh_downloader))"
      by (simp add: fresh_downloader_def small_portal_def run_defs dict_get_def download_url_def)
    with partial_failure_isolation [where v = small_portal and t = fresh_downloader and dc = "''2''"
        and acc = "Text ''7''" and dir = "Path ''out''" and part = "[(''part'', Other ''2'')]",
        THEN conjunct2, THEN conjunct2, THEN conjunct2, THEN conjunct2, THEN conjunct2, THEN conjunct2, THEN conjunct2, THEN conjunct2, THEN conjunct1]
    have "stats (download_part small_portal ''2'' (Text ''7'') (Path ''out'') [(''part'', Other ''2'')] fresh_downloader)
        = (stats fresh_downloader)\<lparr>stats.failed := stats.failed (stats fresh_downloader) + 1\<rparr>"
      by blast
    then show ?thesis by (simp add: fresh_downloader_def zero_stats_def)
  qed
  have 8: "stats (download_part small_portal ''2'' (Text ''7'') (Path ''out'') [(''part'', Text ''1'')] fresh_downloader)
       = zero_stats\<lparr>downloaded := 1\<rparr>"
  proof -
    have "fst (download_file small_portal
        (download_url (base_url fresh_downloader) ''2'' (Text ''7'')
           (dict_get [(''part'', Text ''1'')] ''part'' (dict_get [(''part'', Text ''1'')] ''value'' (Text []))))
        (Join (Path ''out'') (''ASDD_Part_'' @ str (dict_get [(''part'', Text ''1'')] ''part''
            (dict_get [(''part'', Text ''1'')] ''value'' (Text []))) @ ''.pdf''))
        (trace fresh_downloader))"
      by (simp add: fresh_downloader_def small_portal_def run_defs dict_get_def download_url_def)
    with partial_failure_isolation [where v = small_portal and t = fresh_downloader and dc = "''2''"
        and acc = "Text ''7''" and dir = "Path ''out''" and part = "[(''part'', Text ''1'')]",
        THEN conjunct2, THEN conjunct2, THEN conjunct2, THEN conjunct2, THEN conjunct2, THEN conjunct2, THEN conjunct2, THEN conjunct2, THEN conjunct2, THEN conjunct1]
    have "stats (download_part small_portal ''2'' (Text ''7'') (Path ''out'') [(''part'', Text ''1'')] fresh_downloader)
        = (stats fresh_downloader)\<lparr>downloaded := downloaded (stats fresh_downloader) + 1\<rparr>"
      by blast
    then show ?thesis by (simp add: fresh_downloader_def zero_stats_def)
  qed
  have n9: "fst (download_all small_portal fresh_downloader) = None"
    by (simp add: small_run)
  then have run: "download_all small_portal fresh_downloader = (None, ?t')"
    by (simp add: prod_eq_iff)
  have gd: "get_districts small_portal (asd_url fresh_downloader) (trace fresh_downloader)
      = ([?north, ?south], [Mkdir (Path ''out'') False, Sent (GET ''B/asd_sir'')])"
    by (simp add: fresh_downloader_def small_portal_def run_defs)
  have 9: "districts (stats ?t') = 2 \<and> constituencies (stats ?t') = 1 \<and> parts (stats ?t') = 2
      \<and> downloaded (stats ?t') + stats.failed (stats ?t') = 2
      \<and> set [Mkdir (Join (Path ''out'') ''North'') False, Mkdir (Join (Path ''out'') ''South'') False,
           Sent (GET ''B/asd_download.php?district=2&ac=7&part=1''),
           Sent (GET ''B/asd_download.php?district=2&ac=7&part=2'')] \<subseteq> set (trace ?t')"
  proof -
    from partial_failure_isolation [where v = small_portal and t = fresh_downloader
        and ds = "[?north, ?south]" and ?tr1.0 = "[Mkdir (Path ''out'') False, Sent (GET ''B/asd_sir'')]"
        and t' = ?t', THEN conjunct2, THEN conjunct2, THEN conjunct2, THEN conjunct2, THEN conjunct2, THEN conjunct2, THEN conjunct2, THEN conjunct2, THEN conjunct2, THEN conjunct2, THEN conjunct1]
      small_portal_steady gd run
    have a: "districts (stats ?t') = int (length [?north, ?south])
         \<and> constituencies (stats ?t') = constituencies (stats fresh_downloader)
             + int (length (listed_acs small_portal (base_url fresh_downloader) [?north, ?south]))
         \<and> parts (stats ?t') = parts (stats fresh_downloader)
             + int (length (leaf_urls small_portal (base_url fresh_downloader) [?north, ?south]))
         \<and> downloaded (stats ?t') + stats.failed (stats ?t')
             = downloaded (stats fresh_downloader) + stats.failed (stats fresh_downloader)
               + int (length (leaf_urls small_portal (base_url fresh_downloader) [?north, ?south]))
         \<and> (\<forall>d\<in>set [?north, ?south].
               Mkdir (Join (output_dir fresh_downloader) (sanitize_filename (name d))) False \<in> set (trace ?t'))
         \<and> (\<forall>u\<in>set (leaf_urls small_portal (base_url fresh_downloader) [?north, ?south]).
               Sent (GET u) \<in> set (trace ?t'))"
      by blast
    have b: "base_url fresh_downloader = ''B''" "output_dir fresh_downloader = Path ''out''"
      "stats fresh_downloader = zero_stats"
      by (simp_all add: fresh_downloader_def)
    have c: "sanitize_filename ''North'' = ''North''" "sanitize_filename ''South'' = ''South''"
      by (simp_all add: sanitize_filename_def strip_def replace_def invalid_chars_def isspace_def)
    from a show ?thesis
      unfolding b small_portal_leaves [THEN conjunct1] small_portal_leaves [THEN conjunct2]
      by (simp add: zero_stats_def c)
  qed
  have 10: "stats.failed (stats ?t') = 1" by (simp add: small_run)
  have 11: "downloaded (stats ?t') + stats.failed (stats ?t') - parts (stats ?t') = 0"
  proof -
    have "fst (get_districts small_portal (asd_url fresh_downloader) (trace fresh_downloader)) \<noteq> []"
      using gd by simp
    with partial_failure_isolation [where v = small_portal and t = fresh_downloader and t' = ?t',
        THEN conjunct2, THEN conjunct2, THEN conjunct2, THEN conjunct2, THEN conjunct2, THEN conjunct2, THEN conjunct2, THEN conjunct2, THEN conjunct2, THEN conjunct2, THEN conjunct2] run
    have "downloaded (stats ?t') + stats.failed (stats ?t') - parts (stats ?t')
       = downloaded (stats fresh_downloader) + stats.failed (stats fresh_downloader)
         - parts (stats fresh_downloader)"
      by blast
    then show ?thesis by (simp add: fresh_downloader_def zero_stats_def)
  qed
  from 1 2 pp n3 3 4 5 6 7 8 n9 9 10 11 show ?thesis by simp
qed

end
